theory Spec2Isabelle
  imports Main "HOL-Library.Word"
begin

section \<open>Subsampling of a weighted population (subsample.cc)\<close>

text \<open>
  The function \<open>subsample\<close> of subsample.cc draws \<open>n\<close> reads without replacement from the
  reads of a sequence database, where amplicon \<open>i\<close> stands for \<open>db_getabundance(i)\<close>
  reads (one read each when \<open>opt_sizein\<close> is off), and then writes every amplicon with
  its sampled and its discarded abundance.

  The integers are those of the source: \<open>uint64_t\<close> is a \<open>64 word\<close>, the elements of
  \<open>std::vector<int> abundance\<close> are \<open>32 word\<close>s read with \<open>sint\<close>, and \<open>int64_t\<close> is a
  \<open>64 word\<close> read with \<open>sint\<close>. An \<open>int\<close> that is incremented past \<open>2^31 - 1\<close>, which C++
  leaves undefined, wraps around as the machine does. The amplicon number \<open>a\<close>, the loop
  index \<open>i\<close> and the counters \<open>samples\<close> and \<open>discarded\<close> are \<open>int\<close>s that count upwards
  from 0 and never pass \<open>dbsequencecount\<close> (lemma \<open>amplicon_le_count\<close> below); they are
  natural numbers here.
\<close>

type_synonym u64 = "64 word"
type_synonym i64 = "64 word"
type_synonym i32 = "32 word"

subsection \<open>What subsample() is given\<close>

text \<open>
  The options are globals of the program (\<open>opt_...\<close>). A file name that is \<open>nullptr\<close>
  is \<open>None\<close>. The value of the floating-point expression
  \<open>mass_total * opt_sample_pct / 100.0\<close> narrowed to \<open>uint64_t\<close> is not computed here:
  \<open>sample_pct_reads\<close> gives it for each \<open>mass_total\<close>.
\<close>

record options =
  opt_fastaout :: "string option"
  opt_fastaout_discarded :: "string option"
  opt_fastqout :: "string option"
  opt_fastqout_discarded :: "string option"
  opt_sizein :: bool
  opt_sample_size :: u64
  sample_pct_reads :: "u64 \<Rightarrow> u64"

text \<open>
  The database is reached through accessor functions declared in vsearch.h.
  \<open>db_getabundance\<close> is a function of the sequence number alone: at a number that is not
  below \<open>db_getsequencecount\<close> it gives whatever the read past the index finds.
\<close>

record database =
  db_getsequencecount :: nat
  db_getabundance :: "nat \<Rightarrow> u64"
  db_is_fastq :: bool

text \<open>
  \<open>random_ulong\<close>, which subsample.cc calls and does not define, draws from the generator
  of the program: it takes the state of the generator and the exclusive upper bound, and
  gives the number drawn and the next state.
\<close>

type_synonym 'g random_ulong = "'g \<Rightarrow> u64 \<Rightarrow> u64 \<times> 'g"

subsection \<open>The selection loop (lines 180 to 211)\<close>

text \<open>
  The variables of the loop: \<open>reads_left\<close> is \<open>x\<close> (number of reads left), \<open>amplicon\<close> is
  \<open>a\<close> (amplicon number), \<open>read_no\<close> is \<open>r\<close> (read being checked), \<open>acc_mass\<close> is \<open>m\<close>
  (accumulated mass), \<open>cur_mass\<close> is \<open>mass\<close> (mass of current amplicon). \<open>generator\<close> is
  the state of the random number generator. Two lists record, newest first, the
  sequence numbers the loop uses: \<open>incremented\<close> the indices of \<open>abundance[a]++\<close>,
  \<open>looked_up\<close> the arguments of \<open>db_getabundance(a)\<close> at line 207. An index that is not
  below the length of the vector, where C++ leaves \<open>abundance[a]++\<close> undefined, changes no
  element here and is recorded like any other.
\<close>

record 'g selection =
  reads_left :: u64
  amplicon :: nat
  read_no :: u64
  acc_mass :: u64
  cur_mass :: u64
  abundance :: "i32 list"
  generator :: 'g
  incremented :: "nat list"
  looked_up :: "nat list"

definition amplicon_mass :: "options \<Rightarrow> database \<Rightarrow> nat \<Rightarrow> u64" where
  \<comment> \<open>\<open>opt_sizein ? db_getabundance(i) : 1\<close>\<close>
  "amplicon_mass opts db i = (if opt_sizein opts then db_getabundance db i else 1)"

definition select_read :: "'g selection \<Rightarrow> 'g selection" where
  \<comment> \<open>lines 197 and 198: \<open>abundance[a]++; --x;\<close>\<close>
  "select_read s =
     s\<lparr>abundance := (abundance s)[amplicon s := abundance s ! amplicon s + 1],
       reads_left := reads_left s - 1,
       incremented := amplicon s # incremented s\<rparr>"

definition next_amplicon :: "options \<Rightarrow> database \<Rightarrow> 'g selection \<Rightarrow> 'g selection" where
  \<comment> \<open>lines 206 to 208: \<open>++a; mass = opt_sizein ? db_getabundance(a) : 1; m = 0;\<close>\<close>
  "next_amplicon opts db s =
     s\<lparr>amplicon := Suc (amplicon s),
       cur_mass := amplicon_mass opts db (Suc (amplicon s)),
       acc_mass := 0,
       looked_up := (if opt_sizein opts then Suc (amplicon s) # looked_up s else looked_up s)\<rparr>"

definition loop_body ::
  "'g random_ulong \<Rightarrow> options \<Rightarrow> database \<Rightarrow> u64 \<Rightarrow> 'g selection \<Rightarrow> 'g selection" where
  "loop_body rnd opts db mt s =
     (let (random, g) = rnd (generator s) (mt - read_no s);
          s1 = (if random < reads_left s then select_read s else s);
          s2 = s1\<lparr>read_no := read_no s1 + 1, acc_mass := acc_mass s1 + 1, generator := g\<rparr>
      in if cur_mass s2 \<le> acc_mass s2 then next_amplicon opts db s2 else s2)"

text \<open>
  The loop \<open>while (x > 0)\<close>, with \<open>mt\<close> for \<open>mass_total\<close>. Nothing in the loop itself bounds
  the number of its iterations, so its result is an option: \<open>None\<close> is a loop that does
  not end.
\<close>

partial_function (option) selection_loop ::
  "'g random_ulong \<Rightarrow> options \<Rightarrow> database \<Rightarrow> u64 \<Rightarrow> 'g selection \<Rightarrow> 'g selection option" where
  "selection_loop rnd opts db mt s =
     (if 0 < reads_left s
      then selection_loop rnd opts db mt (loop_body rnd opts db mt s)
      else Some s)"

declare selection_loop.simps [code]

text \<open>The state after at most \<open>j\<close> iterations: the loop stands still once \<open>x = 0\<close>.\<close>

fun after_iterations ::
  "nat \<Rightarrow> 'g random_ulong \<Rightarrow> options \<Rightarrow> database \<Rightarrow> u64 \<Rightarrow> 'g selection \<Rightarrow> 'g selection" where
  "after_iterations 0 rnd opts db mt s = s"
| "after_iterations (Suc j) rnd opts db mt s =
     (if 0 < reads_left s
      then after_iterations j rnd opts db mt (loop_body rnd opts db mt s)
      else s)"

subsection \<open>Before the loop (lines 83 to 186)\<close>

text \<open>
  \<open>fatal\<close> prints its message and ends the program. \<open>ConfigurationError\<close> is the error of
  the validation of the options (below), which subsample.cc does not contain.
\<close>

datatype error = ConfigurationError | Fatal string

definition cannot_open :: "(string \<Rightarrow> bool) \<Rightarrow> string option \<Rightarrow> bool" where
  \<comment> \<open>the file is asked for and \<open>fopen_output\<close> gives \<open>nullptr\<close>\<close>
  "cannot_open fopen_output name =
     (case name of None \<Rightarrow> False | Some f \<Rightarrow> \<not> fopen_output f)"

definition open_outputs :: "(string \<Rightarrow> bool) \<Rightarrow> options \<Rightarrow> error option" where
  "open_outputs fopen_output opts =
     (if cannot_open fopen_output (opt_fastaout opts)
        then Some (Fatal ''Unable to open FASTA output file for writing'')
      else if cannot_open fopen_output (opt_fastaout_discarded opts)
        then Some (Fatal ''Unable to open FASTA output file for writing'')
      else if cannot_open fopen_output (opt_fastqout opts)
        then Some (Fatal ''Unable to open FASTQ output file for writing'')
      else if cannot_open fopen_output (opt_fastqout_discarded opts)
        then Some (Fatal ''Unable to open FASTQ output file for writing'')
      else None)"

definition fastq_without_quality :: "options \<Rightarrow> database \<Rightarrow> bool" where
  \<comment> \<open>the test of line 122; a file pointer is not \<open>nullptr\<close> when its file was asked for\<close>
  "fastq_without_quality opts db =
     ((opt_fastqout opts \<noteq> None \<or> opt_fastqout_discarded opts \<noteq> None) \<and> \<not> db_is_fastq db)"

definition mass_total :: "options \<Rightarrow> database \<Rightarrow> u64" where
  "mass_total opts db =
     (if \<not> opt_sizein opts then of_nat (db_getsequencecount db)
      else fold (\<lambda>i acc. acc + db_getabundance db i) [0..<db_getsequencecount db] 0)"

definition reads_to_sample :: "options \<Rightarrow> u64 \<Rightarrow> u64" where
  \<comment> \<open>\<open>n\<close>, lines 165 to 173\<close>
  "reads_to_sample opts mt =
     (if opt_sample_size opts \<noteq> 0 then opt_sample_size opts else sample_pct_reads opts mt)"

definition initial_selection :: "options \<Rightarrow> database \<Rightarrow> u64 \<Rightarrow> 'g \<Rightarrow> 'g selection" where
  "initial_selection opts db n g =
     \<lparr>reads_left = n, amplicon = 0, read_no = 0, acc_mass = 0,
      cur_mass = amplicon_mass opts db 0,
      abundance = replicate (db_getsequencecount db) 0,
      generator = g, incremented = [], looked_up = []\<rparr>"

subsection \<open>Writing the output (lines 214 to 287)\<close>

text \<open>
  What \<open>fasta_print_general\<close> and \<open>fastq_print_general\<close> are given for one amplicon: the
  sequence number (for the sequence, the header and the quality), the abundance and
  the ordinal.
\<close>

record fastx_record =
  seqno :: nat
  size_out :: i64
  ordinal :: nat

record outputs =
  samples :: nat
  discarded :: nat
  fastaout :: "fastx_record list"
  fastqout :: "fastx_record list"
  fastaout_discarded :: "fastx_record list"
  fastqout_discarded :: "fastx_record list"

definition no_output :: outputs where
  "no_output = \<lparr>samples = 0, discarded = 0, fastaout = [], fastqout = [],
                fastaout_discarded = [], fastqout_discarded = []\<rparr>"

definition print_to :: "string option \<Rightarrow> fastx_record \<Rightarrow> fastx_record list \<Rightarrow> fastx_record list" where
  \<comment> \<open>a destination that is not asked for is skipped\<close>
  "print_to name rec file = (if name \<noteq> None then file @ [rec] else file)"

definition ab_sub :: "i32 list \<Rightarrow> nat \<Rightarrow> i64" where
  \<comment> \<open>\<open>int64_t const ab_sub = abundance[i]\<close>: the \<open>int\<close> is sign-extended\<close>
  "ab_sub ab i = scast (ab ! i)"

definition ab_discarded :: "options \<Rightarrow> database \<Rightarrow> i32 list \<Rightarrow> nat \<Rightarrow> i64" where
  "ab_discarded opts db ab i = amplicon_mass opts db i - ab_sub ab i"

definition write_kept :: "options \<Rightarrow> i32 list \<Rightarrow> nat \<Rightarrow> outputs \<Rightarrow> outputs" where
  "write_kept opts ab i out =
     (if 0 <s ab_sub ab i
      then let rec = \<lparr>seqno = i, size_out = ab_sub ab i, ordinal = Suc (samples out)\<rparr>
           in out\<lparr>samples := Suc (samples out),
                  fastaout := print_to (opt_fastaout opts) rec (fastaout out),
                  fastqout := print_to (opt_fastqout opts) rec (fastqout out)\<rparr>
      else out)"

definition write_discarded :: "options \<Rightarrow> database \<Rightarrow> i32 list \<Rightarrow> nat \<Rightarrow> outputs \<Rightarrow> outputs" where
  "write_discarded opts db ab i out =
     (if 0 <s ab_discarded opts db ab i
      then let rec = \<lparr>seqno = i, size_out = ab_discarded opts db ab i,
                       ordinal = Suc (discarded out)\<rparr>
           in out\<lparr>discarded := Suc (discarded out),
                  fastaout_discarded :=
                    print_to (opt_fastaout_discarded opts) rec (fastaout_discarded out),
                  fastqout_discarded :=
                    print_to (opt_fastqout_discarded opts) rec (fastqout_discarded out)\<rparr>
      else out)"

definition write_amplicon :: "options \<Rightarrow> database \<Rightarrow> i32 list \<Rightarrow> nat \<Rightarrow> outputs \<Rightarrow> outputs" where
  "write_amplicon opts db ab i out = write_discarded opts db ab i (write_kept opts ab i out)"

definition write_output :: "options \<Rightarrow> database \<Rightarrow> i32 list \<Rightarrow> outputs" where
  "write_output opts db ab =
     fold (write_amplicon opts db ab) [0..<db_getsequencecount db] no_output"

subsection \<open>The whole of subsample()\<close>

text \<open>
  A run ends with a \<open>fatal\<close> or at the end of the function. \<open>db_loaded\<close> says whether
  \<open>db_read\<close> was called, \<open>selected\<close> is the vector \<open>abundance\<close> (empty before line 162),
  \<open>generator_after\<close> the state of the random number generator, \<open>written\<close> what the
  output pass printed. A run whose selection loop does not end has no result.
\<close>

record 'g run =
  failure :: "error option"
  db_loaded :: bool
  selected :: "i32 list"
  generator_after :: 'g
  written :: outputs

definition stopped :: "error \<Rightarrow> bool \<Rightarrow> i32 list \<Rightarrow> 'g \<Rightarrow> 'g run" where
  "stopped e loaded ab g =
     \<lparr>failure = Some e, db_loaded = loaded, selected = ab, generator_after = g,
      written = no_output\<rparr>"

definition finished :: "options \<Rightarrow> database \<Rightarrow> 'g selection \<Rightarrow> 'g run" where
  "finished opts db s =
     \<lparr>failure = None, db_loaded = True, selected = abundance s,
      generator_after = generator s, written = write_output opts db (abundance s)\<rparr>"

definition subsample ::
  "(string \<Rightarrow> bool) \<Rightarrow> 'g random_ulong \<Rightarrow> options \<Rightarrow> database \<Rightarrow> 'g \<Rightarrow> 'g run option" where
  "subsample fopen_output rnd opts db g =
     (case open_outputs fopen_output opts of
        Some e \<Rightarrow> Some (stopped e False [] g)
      | None \<Rightarrow>
          if fastq_without_quality opts db
          then Some (stopped
                 (Fatal ''Cannot write FASTQ output with a FASTA input file, lacking quality scores'')
                 True [] g)
          else
            let mt = mass_total opts db;
                n = reads_to_sample opts mt
            in if mt < n
               then Some (stopped
                      (Fatal ''Cannot subsample more reads than in the original sample'')
                      True (replicate (db_getsequencecount db) 0) g)
               else map_option (finished opts db)
                      (selection_loop rnd opts db mt (initial_selection opts db n g)))"

subsection \<open>The validation of the configuration\<close>

text \<open>
  Modelled from the spec: the check of the configuration that is made before
  \<open>subsample\<close> is called. It belongs to the handling of the command line, which is not
  among the sources; \<open>subsample\<close> itself reads its options from globals and does not
  test whether a destination was asked for. The spec: ``Violating `no destination
  configured' [...] is a configuration error raised before any population scan'', and
  ``ConfigurationError: no output destination selected''.
\<close>

definition no_destination :: "options \<Rightarrow> bool" where
  \<comment> \<open>Modelled from the spec: none of the four output files is asked for.\<close>
  "no_destination opts =
     (opt_fastaout opts = None \<and> opt_fastqout opts = None
      \<and> opt_fastaout_discarded opts = None \<and> opt_fastqout_discarded opts = None)"

definition fastx_subsample ::
  "(string \<Rightarrow> bool) \<Rightarrow> 'g random_ulong \<Rightarrow> options \<Rightarrow> database \<Rightarrow> 'g \<Rightarrow> 'g run option" where
  \<comment> \<open>Modelled from the spec: the command, which validates the configuration and then
      calls \<open>subsample\<close>.\<close>
  "fastx_subsample fopen_output rnd opts db g =
     (if no_destination opts then Some (stopped ConfigurationError False [] g)
      else subsample fopen_output rnd opts db g)"

subsection \<open>A scripted random number generator\<close>

text \<open>
  The generator of the regression scenario: the numbers to draw are listed in advance,
  each is reduced below the bound it is asked with, and 0 is drawn when the list is used
  up.
\<close>

definition scripted :: "u64 list random_ulong" where
  "scripted g bound = (case g of [] \<Rightarrow> (0, []) | v # vs \<Rightarrow> (v mod bound, vs))"

definition amplicons :: "u64 list \<Rightarrow> database" where
  \<comment> \<open>a FASTA database with the given abundances; 0 lies past its index\<close>
  "amplicons ws =
     \<lparr>db_getsequencecount = length ws,
      db_getabundance = (\<lambda>i. if i < length ws then ws ! i else 0),
      db_is_fastq = False\<rparr>"

definition fastx_options :: "bool \<Rightarrow> u64 \<Rightarrow> options" where
  \<comment> \<open>all four output files, with an absolute sample size\<close>
  "fastx_options sizein n =
     \<lparr>opt_fastaout = Some ''kept.fasta'', opt_fastaout_discarded = Some ''discarded.fasta'',
      opt_fastqout = Some ''kept.fastq'', opt_fastqout_discarded = Some ''discarded.fastq'',
      opt_sizein = sizein, opt_sample_size = n, sample_pct_reads = (\<lambda>mt. 0)\<rparr>"

definition no_options :: "bool \<Rightarrow> u64 \<Rightarrow> options" where
  \<comment> \<open>no output file at all\<close>
  "no_options sizein n =
     \<lparr>opt_fastaout = None, opt_fastaout_discarded = None,
      opt_fastqout = None, opt_fastqout_discarded = None,
      opt_sizein = sizein, opt_sample_size = n, sample_pct_reads = (\<lambda>mt. 0)\<rparr>"

definition fasta_options :: "bool \<Rightarrow> u64 \<Rightarrow> options" where
  \<comment> \<open>\<open>--fastaout\<close> and \<open>--fastaout_discarded\<close>, with an absolute sample size\<close>
  "fasta_options sizein n =
     \<lparr>opt_fastaout = Some ''kept.fasta'', opt_fastaout_discarded = Some ''discarded.fasta'',
      opt_fastqout = None, opt_fastqout_discarded = None,
      opt_sizein = sizein, opt_sample_size = n, sample_pct_reads = (\<lambda>mt. 0)\<rparr>"

section \<open>What the proofs speak about\<close>

subsection \<open>The random number generator and the population\<close>

text \<open>
  The contract of \<open>random_ulong\<close>: a number drawn with a positive bound is below the
  bound. Nothing is asked of a draw with the bound 0.
\<close>

definition draws_below :: "'g random_ulong \<Rightarrow> bool" where
  "draws_below rnd = (\<forall>g bound. 0 < bound \<longrightarrow> fst (rnd g bound) < bound)"

definition drawn :: "'g random_ulong \<Rightarrow> u64 \<Rightarrow> 'g selection \<Rightarrow> u64" where
  \<comment> \<open>\<open>random\<close> at line 192\<close>
  "drawn rnd mt s = fst (rnd (generator s) (mt - read_no s))"

definition selects :: "'g random_ulong \<Rightarrow> u64 \<Rightarrow> 'g selection \<Rightarrow> bool" where
  \<comment> \<open>the test of line 194\<close>
  "selects rnd mt s = (drawn rnd mt s < reads_left s)"

definition advances :: "'g selection \<Rightarrow> bool" where
  \<comment> \<open>the test of line 203, after \<open>++m\<close>\<close>
  "advances s = (cur_mass s \<le> acc_mass s + 1)"

text \<open>
  The weight of amplicon \<open>i\<close> as a number, and the total mass of the population as the
  sum of the weights (which \<open>mass_total\<close> computes in 64 bits).
\<close>

definition weight :: "options \<Rightarrow> database \<Rightarrow> nat \<Rightarrow> nat" where
  "weight opts db i = unat (amplicon_mass opts db i)"

definition population :: "options \<Rightarrow> database \<Rightarrow> nat" where
  "population opts db = (\<Sum>i<db_getsequencecount db. weight opts db i)"

text \<open>
  The loop tests \<open>m >= mass\<close> after it has examined a read, so it spends one iteration
  on an amplicon of weight 0: amplicon \<open>i\<close> takes \<open>units i\<close> iterations.
\<close>

definition units :: "options \<Rightarrow> database \<Rightarrow> nat \<Rightarrow> nat" where
  "units opts db i = max 1 (weight opts db i)"

definition units_before :: "options \<Rightarrow> database \<Rightarrow> nat \<Rightarrow> nat" where
  "units_before opts db a = (\<Sum>i<a. units opts db i)"

definition selected_reads :: "'g selection \<Rightarrow> nat \<Rightarrow> nat" where
  \<comment> \<open>how often the loop has run \<open>abundance[i]++\<close>\<close>
  "selected_reads s i = count_list (incremented s) i"

subsection \<open>Invariants of the loop\<close>

definition within_population :: "u64 \<Rightarrow> 'g selection \<Rightarrow> bool" where
  \<comment> \<open>\<open>x \<le> M - r\<close>, where \<open>M - r\<close> does not wrap around\<close>
  "within_population mt s = (read_no s \<le> mt \<and> reads_left s \<le> mt - read_no s)"

definition positioned :: "options \<Rightarrow> database \<Rightarrow> 'g selection \<Rightarrow> bool" where
  \<comment> \<open>read \<open>r\<close> is read \<open>m\<close> of amplicon \<open>a\<close>, and \<open>mass\<close> is the mass of amplicon \<open>a\<close>\<close>
  "positioned opts db s =
     (amplicon s \<le> db_getsequencecount db
      \<and> unat (read_no s) = units_before opts db (amplicon s) + unat (acc_mass s)
      \<and> (amplicon s < db_getsequencecount db \<longrightarrow>
            unat (acc_mass s) < units opts db (amplicon s)
            \<and> cur_mass s = amplicon_mass opts db (amplicon s))
      \<and> (amplicon s = db_getsequencecount db \<longrightarrow> acc_mass s = 0))"

definition counted :: "options \<Rightarrow> database \<Rightarrow> 'g selection \<Rightarrow> bool" where
  \<comment> \<open>no more reads are selected from an amplicon than the loop has examined of it\<close>
  "counted opts db s =
     (\<forall>i. selected_reads s i \<le>
            (if i < amplicon s then units opts db i
             else if i = amplicon s then unat (acc_mass s) else 0))"

definition tallied :: "u64 \<Rightarrow> 'g selection \<Rightarrow> bool" where
  "tallied n s = (length (incremented s) + unat (reads_left s) = unat n)"

definition stored :: "database \<Rightarrow> 'g selection \<Rightarrow> bool" where
  \<comment> \<open>the \<open>int\<close>s of the vector hold the numbers of selected reads\<close>
  "stored db s =
     (length (abundance s) = db_getsequencecount db
      \<and> (\<forall>i<db_getsequencecount db. sint (abundance s ! i) = int (selected_reads s i)))"

definition tracked :: "options \<Rightarrow> database \<Rightarrow> u64 \<Rightarrow> u64 \<Rightarrow> 'g selection \<Rightarrow> bool" where
  "tracked opts db n mt s =
     (within_population mt s \<and> positioned opts db s \<and> counted opts db s \<and> tallied n s)"

subsection \<open>The output pass\<close>

definition abundance_written :: "fastx_record list \<Rightarrow> int" where
  \<comment> \<open>the sum of the abundances of the records printed to a file\<close>
  "abundance_written file = sum_list (map (\<lambda>rec. sint (size_out rec)) file)"

section \<open>The loop, step by step\<close>

text \<open>
  The fields of the state after one run of the loop body.
\<close>

lemma reads_left_body:
  "reads_left (loop_body rnd opts db mt s) =
     (if drawn rnd mt s < reads_left s then reads_left s - 1 else reads_left s)"
  by (simp add: loop_body_def select_read_def next_amplicon_def drawn_def Let_def split_beta)

lemma reads_left_body_sel:
  "reads_left (loop_body rnd opts db mt s) =
     (if selects rnd mt s then reads_left s - 1 else reads_left s)"
  by (simp add: reads_left_body selects_def)

lemma read_no_body: "read_no (loop_body rnd opts db mt s) = read_no s + 1"
  by (simp add: loop_body_def select_read_def next_amplicon_def Let_def split_beta)

lemma incremented_body:
  "incremented (loop_body rnd opts db mt s) =
     (if selects rnd mt s then amplicon s # incremented s else incremented s)"
  by (simp add: loop_body_def select_read_def next_amplicon_def drawn_def selects_def
      Let_def split_beta)

lemma abundance_body:
  "abundance (loop_body rnd opts db mt s) =
     (if selects rnd mt s then (abundance s)[amplicon s := abundance s ! amplicon s + 1]
      else abundance s)"
  by (simp add: loop_body_def select_read_def next_amplicon_def drawn_def selects_def
      Let_def split_beta)

lemma amplicon_body:
  "amplicon (loop_body rnd opts db mt s) =
     (if advances s then Suc (amplicon s) else amplicon s)"
  by (simp add: loop_body_def select_read_def next_amplicon_def advances_def
      Let_def split_beta)

lemma acc_mass_body:
  "acc_mass (loop_body rnd opts db mt s) = (if advances s then 0 else acc_mass s + 1)"
  by (simp add: loop_body_def select_read_def next_amplicon_def advances_def
      Let_def split_beta)

lemma cur_mass_body:
  "cur_mass (loop_body rnd opts db mt s) =
     (if advances s then amplicon_mass opts db (Suc (amplicon s)) else cur_mass s)"
  by (simp add: loop_body_def select_read_def next_amplicon_def advances_def
      Let_def split_beta)

lemma looked_up_body:
  "looked_up (loop_body rnd opts db mt s) =
     (if advances s \<and> opt_sizein opts then Suc (amplicon s) # looked_up s else looked_up s)"
  by (simp add: loop_body_def select_read_def next_amplicon_def advances_def
      Let_def split_beta)

lemma generator_body:
  "generator (loop_body rnd opts db mt s) = snd (rnd (generator s) (mt - read_no s))"
  by (simp add: loop_body_def select_read_def next_amplicon_def Let_def split_beta)

subsection \<open>The reads left and the reads examined\<close>

text \<open>
  The arithmetic of the loop is read through \<open>unat\<close>. No step of a run that starts with
  \<open>n \<le> M\<close> wraps around.
\<close>

lemma within_population_unat:
  "within_population mt s \<longleftrightarrow> unat (reads_left s) + unat (read_no s) \<le> unat mt"
proof
  assume "within_population mt s"
  then have "read_no s \<le> mt" and "reads_left s \<le> mt - read_no s"
    by (simp_all add: within_population_def)
  then have "unat (read_no s) \<le> unat mt" and "unat (reads_left s) \<le> unat mt - unat (read_no s)"
    by (simp_all add: word_le_nat_alt unat_sub)
  then show "unat (reads_left s) + unat (read_no s) \<le> unat mt" by linarith
next
  assume h: "unat (reads_left s) + unat (read_no s) \<le> unat mt"
  then have le: "read_no s \<le> mt" by (simp add: word_le_nat_alt)
  with h have "reads_left s \<le> mt - read_no s" by (simp add: word_le_nat_alt unat_sub)
  with le show "within_population mt s" by (simp add: within_population_def)
qed

lemma unat_succ:
  fixes v w :: u64
  assumes "unat v < unat w"
  shows "unat (v + 1) = Suc (unat v)"
proof -
  have "unat w < 2 ^ 64" using unsigned_less [of w, where ?'a = nat] by simp
  with assms have "unat v + unat (1 :: u64) < 2 ^ LENGTH(64)" by simp
  then have "unat (v + 1) = unat v + unat (1 :: u64)" by (simp only: unat_add_lem)
  then show ?thesis by simp
qed

lemma unat_pred:
  fixes v :: u64
  assumes "0 < v"
  shows "unat (v - 1) = unat v - 1"
  using assms by (simp add: unat_minus_one word_gt_0)

lemma drawn_below:
  assumes "draws_below rnd" "within_population mt s" "0 < reads_left s"
  shows "unat (drawn rnd mt s) + unat (read_no s) < unat mt"
proof -
  from assms(2) have r: "read_no s \<le> mt" by (simp add: within_population_def)
  from assms(3) have "0 < unat (reads_left s)" by (simp add: word_less_nat_alt)
  with assms(2) have lt: "unat (read_no s) < unat mt" by (simp add: within_population_unat)
  then have "0 < unat (mt - read_no s)" using r by (simp add: unat_sub)
  then have "0 < mt - read_no s" by (simp add: word_less_nat_alt)
  with assms(1) have "drawn rnd mt s < mt - read_no s"
    by (simp add: draws_below_def drawn_def)
  then have "unat (drawn rnd mt s) < unat mt - unat (read_no s)"
    using r by (simp add: word_less_nat_alt unat_sub)
  then show ?thesis by linarith
qed

lemma within_body:
  assumes "draws_below rnd" "within_population mt s" "0 < reads_left s"
  shows "within_population mt (loop_body rnd opts db mt s)"
proof -
  have d: "unat (drawn rnd mt s) + unat (read_no s) < unat mt"
    by (rule drawn_below [OF assms])
  then have r: "unat (read_no s + 1) = Suc (unat (read_no s))"
    by (intro unat_succ [of _ mt]) linarith
  have x: "unat (reads_left s - 1) = unat (reads_left s) - 1"
    by (rule unat_pred [OF assms(3)])
  have w: "unat (reads_left s) + unat (read_no s) \<le> unat mt"
    using assms(2) by (simp add: within_population_unat)
  have pos: "0 < unat (reads_left s)" using assms(3) by (simp add: word_less_nat_alt)
  show ?thesis
  proof (cases "drawn rnd mt s < reads_left s")
    case True
    with r x w pos show ?thesis
      by (simp add: within_population_unat reads_left_body read_no_body)
  next
    case False
    then have "unat (reads_left s) \<le> unat (drawn rnd mt s)"
      by (simp add: word_less_nat_alt)
    with False r d show ?thesis
      by (simp add: within_population_unat reads_left_body read_no_body)
  qed
qed

lemma read_no_below:
  assumes "within_population mt s" "0 < reads_left s"
  shows "unat (read_no s) < unat mt"
proof -
  from assms(2) have "0 < unat (reads_left s)" by (simp add: word_less_nat_alt)
  with assms(1) show ?thesis by (simp add: within_population_unat)
qed

lemma within_initial:
  "n \<le> mt \<Longrightarrow> within_population mt (initial_selection opts db n g)"
  by (simp add: within_population_def initial_selection_def)

subsection \<open>Iterations and the result of the loop\<close>

lemma after_iterations_Suc:
  "after_iterations (Suc j) rnd opts db mt s =
     (if 0 < reads_left (after_iterations j rnd opts db mt s)
      then loop_body rnd opts db mt (after_iterations j rnd opts db mt s)
      else after_iterations j rnd opts db mt s)"
proof (induction j arbitrary: s)
  case 0
  show ?case by simp
next
  case (Suc j)
  show ?case
  proof (cases "0 < reads_left s")
    case True
    then show ?thesis
      using Suc.IH [of "loop_body rnd opts db mt s"] by simp
  next
    case False
    then show ?thesis by simp
  qed
qed

lemma within_after:
  assumes "draws_below rnd" "within_population mt s"
  shows "within_population mt (after_iterations j rnd opts db mt s)"
proof (induction j)
  case 0
  show ?case using assms(2) by simp
next
  case (Suc j)
  show ?case
  proof (cases "0 < reads_left (after_iterations j rnd opts db mt s)")
    case True
    with within_body [OF assms(1) Suc True] show ?thesis
      by (simp only: after_iterations_Suc if_True)
  next
    case False
    with Suc show ?thesis by (simp only: after_iterations_Suc if_False)
  qed
qed

lemma reads_left_after_mono:
  "reads_left (after_iterations (Suc j) rnd opts db mt s)
     \<le> reads_left (after_iterations j rnd opts db mt s)"
proof (cases "0 < reads_left (after_iterations j rnd opts db mt s)")
  case True
  then have "reads_left (after_iterations j rnd opts db mt s) - 1
               \<le> reads_left (after_iterations j rnd opts db mt s)"
    by (simp add: word_le_nat_alt unat_pred)
  with True show ?thesis
    by (simp add: after_iterations_Suc reads_left_body del: after_iterations.simps)
next
  case False
  then show ?thesis by (simp add: after_iterations_Suc del: after_iterations.simps)
qed

lemma selection_loop_after:
  "reads_left (after_iterations j rnd opts db mt s) = 0 \<Longrightarrow>
     selection_loop rnd opts db mt s = Some (after_iterations j rnd opts db mt s)"
proof (induction j arbitrary: s)
  case 0
  then show ?case by (subst selection_loop.simps) simp
next
  case (Suc j)
  show ?case
  proof (cases "0 < reads_left s")
    case True
    with Suc.prems have "reads_left (after_iterations j rnd opts db mt (loop_body rnd opts db mt s)) = 0"
      by simp
    from Suc.IH [OF this] True show ?thesis
      by (subst selection_loop.simps) simp
  next
    case False
    then show ?thesis by (subst selection_loop.simps) simp
  qed
qed

lemma loop_ends:
  assumes "draws_below rnd" "within_population mt s"
  shows "\<exists>j. unat (read_no s) + j \<le> unat mt
           \<and> reads_left (after_iterations j rnd opts db mt s) = 0
           \<and> (\<forall>i<j. 0 < reads_left (after_iterations i rnd opts db mt s))
           \<and> unat (read_no (after_iterations j rnd opts db mt s)) = unat (read_no s) + j"
  using assms(2)
proof (induction "unat mt - unat (read_no s)" arbitrary: s rule: less_induct)
  case less
  show ?case
  proof (cases "0 < reads_left s")
    case False
    then have "reads_left s = 0" by (simp add: word_gt_0)
    moreover have "unat (read_no s) \<le> unat mt"
      using less.prems by (simp add: within_population_unat)
    ultimately show ?thesis by (intro exI [of _ 0]) simp
  next
    case True
    let ?t = "loop_body rnd opts db mt s"
    have d: "unat (drawn rnd mt s) + unat (read_no s) < unat mt"
      by (rule drawn_below [OF assms(1) less.prems True])
    then have r: "unat (read_no ?t) = Suc (unat (read_no s))"
      unfolding read_no_body by (intro unat_succ [of _ mt]) linarith
    have w: "within_population mt ?t"
      by (rule within_body [OF assms(1) less.prems True])
    from r d have "unat mt - unat (read_no ?t) < unat mt - unat (read_no s)" by linarith
    from less.hyps [OF this w] obtain j where j:
      "unat (read_no ?t) + j \<le> unat mt"
      "reads_left (after_iterations j rnd opts db mt ?t) = 0"
      "\<forall>i<j. 0 < reads_left (after_iterations i rnd opts db mt ?t)"
      "unat (read_no (after_iterations j rnd opts db mt ?t)) = unat (read_no ?t) + j"
      by blast
    have "\<forall>i<Suc j. 0 < reads_left (after_iterations i rnd opts db mt s)"
    proof (intro allI impI)
      fix i assume "i < Suc j"
      show "0 < reads_left (after_iterations i rnd opts db mt s)"
      proof (cases i)
        case 0
        with True show ?thesis by simp
      next
        case (Suc i')
        with \<open>i < Suc j\<close> j(3) True show ?thesis by simp
      qed
    qed
    with j r True show ?thesis by (intro exI [of _ "Suc j"]) simp
  qed
qed

lemma selection_loop_result:
  assumes "draws_below rnd" "n \<le> mt"
  shows "\<exists>j. selection_loop rnd opts db mt (initial_selection opts db n g)
               = Some (after_iterations j rnd opts db mt (initial_selection opts db n g))
             \<and> reads_left (after_iterations j rnd opts db mt (initial_selection opts db n g)) = 0"
proof -
  from loop_ends [OF assms(1) within_initial [OF assms(2)]]
  obtain j where "reads_left (after_iterations j rnd opts db mt (initial_selection opts db n g)) = 0"
    by blast
  with selection_loop_after [OF this] show ?thesis by blast
qed

subsection \<open>The position in the population\<close>

lemma units_before_Suc:
  "units_before opts db (Suc a) = units_before opts db a + units opts db a"
  by (simp add: units_before_def)

lemma units_before_mono: "a \<le> b \<Longrightarrow> units_before opts db a \<le> units_before opts db b"
  unfolding units_before_def by (intro sum_mono2) auto

lemma amplicon_in_range:
  assumes "positioned opts db s" "within_population mt s" "0 < reads_left s"
    and "unat mt \<le> units_before opts db (db_getsequencecount db)"
  shows "amplicon s < db_getsequencecount db"
proof (rule ccontr)
  assume "\<not> amplicon s < db_getsequencecount db"
  with assms(1) have "amplicon s = db_getsequencecount db" and "acc_mass s = 0"
    by (auto simp: positioned_def)
  with assms(1) have "unat (read_no s) = units_before opts db (db_getsequencecount db)"
    by (simp add: positioned_def)
  with read_no_below [OF assms(2,3)] assms(4) show False by linarith
qed

lemma advances_iff:
  assumes "positioned opts db s" "within_population mt s" "0 < reads_left s"
    and "unat mt \<le> units_before opts db (db_getsequencecount db)"
  shows "unat (acc_mass s + 1) = Suc (unat (acc_mass s))"
    and "advances s \<longleftrightarrow> Suc (unat (acc_mass s)) = units opts db (amplicon s)"
    and "Suc (unat (acc_mass s)) \<le> units opts db (amplicon s)"
proof -
  have a: "amplicon s < db_getsequencecount db"
    by (rule amplicon_in_range [OF assms])
  with assms(1) have m: "unat (acc_mass s) < units opts db (amplicon s)"
    and c: "cur_mass s = amplicon_mass opts db (amplicon s)"
    and r: "unat (read_no s) = units_before opts db (amplicon s) + unat (acc_mass s)"
    by (simp_all add: positioned_def)
  from r read_no_below [OF assms(2,3)] have "unat (acc_mass s) < unat mt" by linarith
  then show s: "unat (acc_mass s + 1) = Suc (unat (acc_mass s))" by (rule unat_succ)
  from m show "Suc (unat (acc_mass s)) \<le> units opts db (amplicon s)" by simp
  have "advances s \<longleftrightarrow> weight opts db (amplicon s) \<le> Suc (unat (acc_mass s))"
    by (simp add: advances_def c word_le_nat_alt s weight_def)
  with m show "advances s \<longleftrightarrow> Suc (unat (acc_mass s)) = units opts db (amplicon s)"
    by (auto simp: units_def)
qed

lemma positioned_body:
  assumes "positioned opts db s" "within_population mt s" "0 < reads_left s"
    and "unat mt \<le> units_before opts db (db_getsequencecount db)"
  shows "positioned opts db (loop_body rnd opts db mt s)"
proof -
  note adv = advances_iff [OF assms]
  have a: "amplicon s < db_getsequencecount db"
    by (rule amplicon_in_range [OF assms])
  with assms(1) have m: "unat (acc_mass s) < units opts db (amplicon s)"
    and c: "cur_mass s = amplicon_mass opts db (amplicon s)"
    and r: "unat (read_no s) = units_before opts db (amplicon s) + unat (acc_mass s)"
    by (simp_all add: positioned_def)
  have r': "unat (read_no s + 1) = Suc (unat (read_no s))"
    using read_no_below [OF assms(2,3)] by (rule unat_succ)
  have u: "0 < units opts db (Suc (amplicon s))" by (simp add: units_def)
  show ?thesis
  proof (cases "advances s")
    case True
    with adv(2) have "Suc (unat (acc_mass s)) = units opts db (amplicon s)" by simp
    with True a r r' u show ?thesis
      by (simp add: positioned_def amplicon_body acc_mass_body cur_mass_body read_no_body
          units_before_Suc)
  next
    case False
    with adv(2,3) have "Suc (unat (acc_mass s)) < units opts db (amplicon s)" by simp
    with False a r r' c adv(1) show ?thesis
      by (simp add: positioned_def amplicon_body acc_mass_body cur_mass_body read_no_body)
  qed
qed

lemma positioned_initial: "positioned opts db (initial_selection opts db n g)"
  by (simp add: positioned_def initial_selection_def units_before_def units_def max_def)

subsection \<open>The selected reads\<close>

lemma counted_body:
  assumes "positioned opts db s" "within_population mt s" "0 < reads_left s"
    and "unat mt \<le> units_before opts db (db_getsequencecount db)"
    and "counted opts db s"
  shows "counted opts db (loop_body rnd opts db mt s)"
proof -
  note adv = advances_iff [OF assms(1-4)]
  have bound: "selected_reads s i \<le>
      (if i < amplicon s then units opts db i
       else if i = amplicon s then unat (acc_mass s) else 0)" for i
    using assms(5) by (simp add: counted_def)
  have step: "selected_reads (loop_body rnd opts db mt s) i
      \<le> selected_reads s i + (if i = amplicon s then 1 else 0)" for i
    by (simp add: selected_reads_def incremented_body)
  show ?thesis
    unfolding counted_def
  proof
    fix i
    consider "i < amplicon s" | "i = amplicon s" | "amplicon s < i" by linarith
    then show "selected_reads (loop_body rnd opts db mt s) i \<le>
      (if i < amplicon (loop_body rnd opts db mt s) then units opts db i
       else if i = amplicon (loop_body rnd opts db mt s)
         then unat (acc_mass (loop_body rnd opts db mt s)) else 0)"
    proof cases
      case 1
      with bound [of i] step [of i] show ?thesis by (simp add: amplicon_body)
    next
      case 2
      with bound [of i] step [of i] adv show ?thesis
        by (cases "advances s") (simp_all add: amplicon_body acc_mass_body)
    next
      case 3
      with bound [of i] step [of i] show ?thesis
        by (cases "advances s") (simp_all add: amplicon_body acc_mass_body)
    qed
  qed
qed

lemma counted_initial: "counted opts db (initial_selection opts db n g)"
  by (simp add: counted_def selected_reads_def initial_selection_def)

lemma tallied_body:
  assumes "tallied n s" "0 < reads_left s"
  shows "tallied n (loop_body rnd opts db mt s)"
proof -
  from assms(2) have "0 < unat (reads_left s)" by (simp add: word_less_nat_alt)
  with assms(1) unat_pred [OF assms(2)] show ?thesis
    by (simp add: tallied_def incremented_body reads_left_body_sel)
qed

lemma tallied_initial: "tallied n (initial_selection opts db n g)"
  by (simp add: tallied_def initial_selection_def)

lemma tracked_after:
  assumes "draws_below rnd" "n \<le> mt"
    and "unat mt \<le> units_before opts db (db_getsequencecount db)"
  shows "tracked opts db n mt
           (after_iterations j rnd opts db mt (initial_selection opts db n g))"
proof (induction j)
  case 0
  show ?case
    by (simp add: tracked_def within_initial [OF assms(2)] positioned_initial
        counted_initial tallied_initial)
next
  case (Suc j)
  let ?s = "after_iterations j rnd opts db mt (initial_selection opts db n g)"
  show ?case
  proof (cases "0 < reads_left ?s")
    case False
    with Suc show ?thesis by (simp only: after_iterations_Suc if_False)
  next
    case True
    from Suc have w: "within_population mt ?s" and p: "positioned opts db ?s"
      and c: "counted opts db ?s" and t: "tallied n ?s"
      by (simp_all add: tracked_def)
    have "tracked opts db n mt (loop_body rnd opts db mt ?s)"
      unfolding tracked_def
      using within_body [OF assms(1) w True] positioned_body [OF p w True assms(3)]
        counted_body [OF p w True assms(3) c] tallied_body [OF t True]
      by blast
    with True show ?thesis by (simp only: after_iterations_Suc if_True)
  qed
qed

lemma incremented_in_range:
  assumes "positioned opts db s" "counted opts db s" "i \<in> set (incremented s)"
  shows "i < db_getsequencecount db"
proof -
  from assms(3) have "0 < selected_reads s i"
    using count_list_0_iff [of "incremented s" i] by (simp add: selected_reads_def)
  moreover from assms(2) have "selected_reads s i \<le>
      (if i < amplicon s then units opts db i
       else if i = amplicon s then unat (acc_mass s) else 0)"
    unfolding counted_def by (rule spec)
  ultimately have "i < amplicon s \<or> i = amplicon s \<and> 0 < unat (acc_mass s)"
    by (auto split: if_splits)
  with assms(1) show ?thesis
    by (auto simp: positioned_def le_less)
qed

lemma selected_reads_sum:
  assumes "positioned opts db s" "counted opts db s"
  shows "(\<Sum>i<db_getsequencecount db. selected_reads s i) = length (incremented s)"
proof -
  have "set (incremented s) \<subseteq> {..<db_getsequencecount db}"
    using incremented_in_range [OF assms] by auto
  then have "sum (count_list (incremented s)) {..<db_getsequencecount db} = length (incremented s)"
    by (rule sum_count_set) simp
  then show ?thesis by (simp add: selected_reads_def)
qed

lemma selected_reads_le:
  assumes "positioned opts db s" "counted opts db s" "i < db_getsequencecount db"
  shows "selected_reads s i \<le> units opts db i"
proof -
  from assms(2) have b: "selected_reads s i \<le>
      (if i < amplicon s then units opts db i
       else if i = amplicon s then unat (acc_mass s) else 0)"
    unfolding counted_def by (rule spec)
  show ?thesis
  proof (cases "i = amplicon s")
    case True
    with assms(1,3) have "unat (acc_mass s) < units opts db i" by (simp add: positioned_def)
    with b True show ?thesis by simp
  next
    case False
    with b show ?thesis by (simp split: if_splits)
  qed
qed

lemma sum_list_nth: "sum_list (map f xs) = (\<Sum>i<length xs. f (xs ! i))"
  using sum_list_sum_nth [of "map f xs"] by (simp add: atLeast0LessThan)

lemma sum_eq_pointwise:
  fixes f g :: "nat \<Rightarrow> nat"
  assumes "\<forall>i<k. f i \<le> g i" "(\<Sum>i<k. f i) = (\<Sum>i<k. g i)" "i < k"
  shows "f i = g i"
proof (rule ccontr)
  assume "f i \<noteq> g i"
  with assms(1,3) have "f i < g i" by (simp add: le_neq_implies_less)
  with assms(1,3) have "(\<Sum>i<k. f i) < (\<Sum>i<k. g i)"
    by (intro sum_strict_mono_ex1) auto
  with assms(2) show False by simp
qed

subsection \<open>The ints of the vector\<close>

lemma sint_succ:
  fixes v :: i32
  assumes "sint v < 2147483647"
  shows "sint (v + 1) = sint v + 1"
proof -
  have "- (2 ^ 31) \<le> sint v" using sint_ge [of v] by simp
  with assms have "signed_take_bit 31 (sint v + 1) = sint v + 1"
    by (intro signed_take_bit_int_eq_self) simp_all
  then show ?thesis by (simp add: sint_word_ariths)
qed

lemma stored_body:
  assumes "positioned opts db s" "within_population mt s" "0 < reads_left s"
    and "unat mt \<le> units_before opts db (db_getsequencecount db)"
    and "counted opts db s" "stored db s"
    and "\<forall>i<db_getsequencecount db. units opts db i \<le> 2147483647"
  shows "stored db (loop_body rnd opts db mt s)"
proof (cases "selects rnd mt s")
  case False
  with assms(6) show ?thesis
    by (simp add: stored_def abundance_body selected_reads_def incremented_body)
next
  case True
  have a: "amplicon s < db_getsequencecount db"
    by (rule amplicon_in_range [OF assms(1-4)])
  with assms(1) have m: "unat (acc_mass s) < units opts db (amplicon s)"
    by (simp add: positioned_def)
  from assms(5) have "selected_reads s (amplicon s) \<le>
      (if amplicon s < amplicon s then units opts db (amplicon s)
       else if amplicon s = amplicon s then unat (acc_mass s) else 0)"
    unfolding counted_def by (rule spec)
  then have "selected_reads s (amplicon s) \<le> unat (acc_mass s)" by simp
  with m assms(7) a have "selected_reads s (amplicon s) < 2147483647"
    by (metis le_less_trans less_le_trans)
  moreover from assms(6) a
  have eq: "sint (abundance s ! amplicon s) = int (selected_reads s (amplicon s))"
    and len: "length (abundance s) = db_getsequencecount db"
    by (simp_all add: stored_def)
  ultimately have "sint (abundance s ! amplicon s + 1) = int (selected_reads s (amplicon s)) + 1"
    by (simp add: sint_succ)
  with assms(6) True a show ?thesis
    by (simp add: stored_def abundance_body selected_reads_def incremented_body nth_list_update)
qed

lemma stored_initial: "stored db (initial_selection opts db n g)"
  by (simp add: stored_def selected_reads_def initial_selection_def)

lemma stored_after:
  assumes "draws_below rnd" "n \<le> mt"
    and "unat mt \<le> units_before opts db (db_getsequencecount db)"
    and "\<forall>i<db_getsequencecount db. units opts db i \<le> 2147483647"
  shows "stored db (after_iterations j rnd opts db mt (initial_selection opts db n g))"
proof (induction j)
  case 0
  show ?case by (simp add: stored_initial)
next
  case (Suc j)
  let ?s = "after_iterations j rnd opts db mt (initial_selection opts db n g)"
  show ?case
  proof (cases "0 < reads_left ?s")
    case False
    with Suc show ?thesis by (simp only: after_iterations_Suc if_False)
  next
    case True
    have "tracked opts db n mt ?s" by (rule tracked_after [OF assms(1-3)])
    then have w: "within_population mt ?s" and p: "positioned opts db ?s"
      and c: "counted opts db ?s"
      by (simp_all add: tracked_def)
    from stored_body [OF p w True assms(3) c Suc assms(4)] True show ?thesis
      by (simp only: after_iterations_Suc if_True)
  qed
qed

lemma selection_loop_tracked:
  assumes "draws_below rnd" "n \<le> mt"
    and "unat mt \<le> units_before opts db (db_getsequencecount db)"
  shows "\<exists>s. selection_loop rnd opts db mt (initial_selection opts db n g) = Some s
           \<and> reads_left s = 0 \<and> tracked opts db n mt s
           \<and> ((\<forall>i<db_getsequencecount db. units opts db i \<le> 2147483647) \<longrightarrow> stored db s)"
proof -
  from selection_loop_result [OF assms(1,2)] obtain j
    where "selection_loop rnd opts db mt (initial_selection opts db n g)
             = Some (after_iterations j rnd opts db mt (initial_selection opts db n g))"
      and "reads_left (after_iterations j rnd opts db mt (initial_selection opts db n g)) = 0"
    by blast
  with tracked_after [OF assms, of j g] stored_after [OF assms, of j g]
  show ?thesis by blast
qed

subsection \<open>The total mass\<close>

text \<open>
  \<open>mass_total\<close> adds the abundances in 64 bits: it is never more than the sum of the
  weights, and it is that sum where the sum fits.
\<close>

lemma unat_fold_le:
  fixes f :: "nat \<Rightarrow> u64"
  shows "unat (fold (\<lambda>i acc. acc + f i) [0..<k] 0) \<le> (\<Sum>i<k. unat (f i))"
proof (induction k)
  case 0
  show ?case by simp
next
  case (Suc k)
  have "unat (fold (\<lambda>i acc. acc + f i) [0..<k] 0 + f k)
          \<le> unat (fold (\<lambda>i acc. acc + f i) [0..<k] 0) + unat (f k)"
    by (simp add: unat_word_ariths)
  with Suc show ?case by simp
qed

lemma unat_fold_eq:
  fixes f :: "nat \<Rightarrow> u64"
  assumes "(\<Sum>i<k. unat (f i)) < 2 ^ 64"
  shows "unat (fold (\<lambda>i acc. acc + f i) [0..<k] 0) = (\<Sum>i<k. unat (f i))"
  using assms
proof (induction k)
  case 0
  show ?case by simp
next
  case (Suc k)
  then have ih: "unat (fold (\<lambda>i acc. acc + f i) [0..<k] 0) = (\<Sum>i<k. unat (f i))"
    by simp
  with Suc.prems
  have "unat (fold (\<lambda>i acc. acc + f i) [0..<k] 0) + unat (f k) < 2 ^ LENGTH(64)"
    by simp
  then have "unat (fold (\<lambda>i acc. acc + f i) [0..<k] 0 + f k)
          = unat (fold (\<lambda>i acc. acc + f i) [0..<k] 0) + unat (f k)"
    by (simp only: unat_add_lem)
  with ih show ?case by simp
qed

lemma weight_le_units: "weight opts db i \<le> units opts db i"
  by (simp add: units_def)

lemma population_le_units: "population opts db \<le> units_before opts db (db_getsequencecount db)"
  unfolding population_def units_before_def by (intro sum_mono weight_le_units)

lemma mass_total_le_population: "unat (mass_total opts db) \<le> population opts db"
proof (cases "opt_sizein opts")
  case True
  then show ?thesis
    using unat_fold_le [of "db_getabundance db" "db_getsequencecount db"]
    by (simp add: mass_total_def population_def weight_def amplicon_mass_def)
next
  case False
  have "unat (of_nat (db_getsequencecount db) :: u64) \<le> db_getsequencecount db"
    by (simp add: unat_of_nat)
  with False show ?thesis
    by (simp add: mass_total_def population_def weight_def amplicon_mass_def)
qed

lemma mass_total_le_units:
  "unat (mass_total opts db) \<le> units_before opts db (db_getsequencecount db)"
  using mass_total_le_population population_le_units by (rule order_trans)

lemma mass_total_population:
  assumes "population opts db < 2 ^ 64"
  shows "unat (mass_total opts db) = population opts db"
proof (cases "opt_sizein opts")
  case True
  with assms show ?thesis
    using unat_fold_eq [of "db_getabundance db" "db_getsequencecount db"]
    by (simp add: mass_total_def population_def weight_def amplicon_mass_def)
next
  case False
  with assms have "db_getsequencecount db < 2 ^ 64"
    by (simp add: population_def weight_def amplicon_mass_def)
  then have "unat (of_nat (db_getsequencecount db) :: u64) = db_getsequencecount db"
    by (simp add: unat_of_nat)
  with False show ?thesis
    by (simp add: mass_total_def population_def weight_def amplicon_mass_def)
qed

lemma population_small:
  assumes "db_getsequencecount db < 2 ^ 31"
    and "\<forall>i<db_getsequencecount db. weight opts db i \<le> 2147483647"
  shows "population opts db < 2 ^ 64"
proof -
  have "population opts db \<le> (\<Sum>i<db_getsequencecount db. 2147483647)"
    unfolding population_def using assms(2) by (intro sum_mono) simp
  also have "\<dots> = db_getsequencecount db * 2147483647" by simp
  also have "\<dots> \<le> 2 ^ 31 * 2147483647" using assms(1) by simp
  also have "\<dots> < (2 ^ 64 :: nat)" by simp
  finally show ?thesis .
qed

lemma units_before_population:
  assumes "\<forall>i<db_getsequencecount db. 1 \<le> weight opts db i"
  shows "units_before opts db (db_getsequencecount db) = population opts db"
  unfolding units_before_def population_def
  using assms by (intro sum.cong) (simp_all add: units_def max_def)

subsection \<open>The amplicon number\<close>

text \<open>
  The amplicon number stays within \<open>dbsequencecount\<close> (so that the \<open>int\<close> cannot overflow),
  and every \<open>abundance[a]++\<close> is at a number below it. With \<open>opt_sizein\<close> the loop looks up
  the abundance of every amplicon it moves to; when the whole population is sampled it
  moves past the last one.
\<close>

lemma amplicon_le_count:
  assumes "draws_below rnd" "n \<le> mass_total opts db"
  shows "amplicon (after_iterations j rnd opts db (mass_total opts db)
           (initial_selection opts db n g)) \<le> db_getsequencecount db"
  using tracked_after [OF assms mass_total_le_units, of j g]
  by (simp add: tracked_def positioned_def)

lemma increments_below_count:
  assumes "draws_below rnd" "n \<le> mass_total opts db"
    and "i \<in> set (incremented (after_iterations j rnd opts db (mass_total opts db)
                      (initial_selection opts db n g)))"
  shows "i < db_getsequencecount db"
proof -
  have "tracked opts db n (mass_total opts db)
          (after_iterations j rnd opts db (mass_total opts db) (initial_selection opts db n g))"
    by (rule tracked_after [OF assms(1,2) mass_total_le_units])
  then show ?thesis
    using assms(3) by (auto simp: tracked_def intro: incremented_in_range)
qed

lemma looked_up_after:
  assumes "opt_sizein opts"
  shows "looked_up (after_iterations j rnd opts db mt (initial_selection opts db n g))
         = rev [1..<Suc (amplicon (after_iterations j rnd opts db mt (initial_selection opts db n g)))]"
proof (induction j)
  case 0
  show ?case by (simp add: initial_selection_def)
next
  case (Suc j)
  then show ?case
    using assms
    by (simp add: after_iterations_Suc looked_up_body amplicon_body del: after_iterations.simps)
qed

lemma exhaustive_body:
  assumes "draws_below rnd" "reads_left s = mt - read_no s" "0 < reads_left s"
  shows "selects rnd mt s"
    and "reads_left (loop_body rnd opts db mt s) = mt - read_no (loop_body rnd opts db mt s)"
proof -
  from assms show sel: "selects rnd mt s"
    by (simp add: selects_def drawn_def draws_below_def)
  with assms(2) show "reads_left (loop_body rnd opts db mt s)
      = mt - read_no (loop_body rnd opts db mt s)"
    by (simp add: reads_left_body_sel read_no_body)
qed

lemma exhaustive_after:
  assumes "draws_below rnd"
  shows "reads_left (after_iterations j rnd opts db mt (initial_selection opts db mt g))
           = mt - read_no (after_iterations j rnd opts db mt (initial_selection opts db mt g))"
proof (induction j)
  case 0
  show ?case by (simp add: initial_selection_def)
next
  case (Suc j)
  let ?s = "after_iterations j rnd opts db mt (initial_selection opts db mt g)"
  show ?case
  proof (cases "0 < reads_left ?s")
    case True
    with exhaustive_body(2) [OF assms Suc True] show ?thesis
      by (simp only: after_iterations_Suc if_True)
  next
    case False
    with Suc show ?thesis by (simp only: after_iterations_Suc if_False)
  qed
qed

lemma last_lookup_out_of_range:
  assumes "draws_below rnd" "opt_sizein opts"
    and "0 < db_getsequencecount db" "db_getsequencecount db < 2 ^ 31"
    and "\<forall>i<db_getsequencecount db. 1 \<le> weight opts db i \<and> weight opts db i \<le> 2147483647"
  shows "\<exists>s. selection_loop rnd opts db (mass_total opts db)
                (initial_selection opts db (mass_total opts db) g) = Some s
           \<and> amplicon s = db_getsequencecount db
           \<and> hd (looked_up s) = db_getsequencecount db"
proof -
  let ?mt = "mass_total opts db" and ?k = "db_getsequencecount db"
  let ?s0 = "initial_selection opts db ?mt g"
  from selection_loop_result [OF assms(1) order_refl, of opts db ?mt g] obtain j
    where run: "selection_loop rnd opts db ?mt ?s0 = Some (after_iterations j rnd opts db ?mt ?s0)"
      and stop: "reads_left (after_iterations j rnd opts db ?mt ?s0) = 0"
    by blast
  let ?s = "after_iterations j rnd opts db ?mt ?s0"
  have "population opts db < 2 ^ 64"
    using assms(4,5) by (intro population_small) simp_all
  then have mt: "unat ?mt = population opts db" by (rule mass_total_population)
  have ub: "units_before opts db ?k = population opts db"
    using assms(5) by (intro units_before_population) simp
  have "tracked opts db ?mt ?mt ?s"
    by (rule tracked_after [OF assms(1) order_refl mass_total_le_units])
  then have p: "positioned opts db ?s" by (simp add: tracked_def)
  from exhaustive_after [OF assms(1), of j opts db ?mt g] stop
  have "read_no ?s = ?mt" by simp
  then have r: "unat (read_no ?s) = units_before opts db ?k" by (simp add: mt ub)
  have a: "amplicon ?s = ?k"
  proof (rule ccontr)
    assume "amplicon ?s \<noteq> ?k"
    with p have lt: "amplicon ?s < ?k" and m: "unat (acc_mass ?s) < units opts db (amplicon ?s)"
      and pos: "unat (read_no ?s) = units_before opts db (amplicon ?s) + unat (acc_mass ?s)"
      by (simp_all add: positioned_def)
    from pos m have "unat (read_no ?s) < units_before opts db (Suc (amplicon ?s))"
      by (simp add: units_before_Suc)
    also have "\<dots> \<le> units_before opts db ?k"
      using lt by (intro units_before_mono) simp
    finally show False using r by simp
  qed
  have "looked_up ?s = rev [1..<Suc ?k]"
    using looked_up_after [OF assms(2), of j rnd db ?mt ?mt g] a by simp
  then have "hd (looked_up ?s) = ?k" using assms(3) by simp
  with run a show ?thesis by blast
qed


section \<open>The output pass, amplicon by amplicon\<close>

lemma write_amplicon_kept:
  "fastaout (write_amplicon opts db ab i out) =
     (if 0 <s ab_sub ab i
      then print_to (opt_fastaout opts)
             \<lparr>seqno = i, size_out = ab_sub ab i, ordinal = Suc (samples out)\<rparr> (fastaout out)
      else fastaout out)"
  "fastqout (write_amplicon opts db ab i out) =
     (if 0 <s ab_sub ab i
      then print_to (opt_fastqout opts)
             \<lparr>seqno = i, size_out = ab_sub ab i, ordinal = Suc (samples out)\<rparr> (fastqout out)
      else fastqout out)"
  "samples (write_amplicon opts db ab i out) =
     (if 0 <s ab_sub ab i then Suc (samples out) else samples out)"
  by (simp_all add: write_amplicon_def write_kept_def write_discarded_def Let_def)

lemma write_amplicon_discarded:
  "fastaout_discarded (write_amplicon opts db ab i out) =
     (if 0 <s ab_discarded opts db ab i
      then print_to (opt_fastaout_discarded opts)
             \<lparr>seqno = i, size_out = ab_discarded opts db ab i, ordinal = Suc (discarded out)\<rparr>
             (fastaout_discarded out)
      else fastaout_discarded out)"
  "fastqout_discarded (write_amplicon opts db ab i out) =
     (if 0 <s ab_discarded opts db ab i
      then print_to (opt_fastqout_discarded opts)
             \<lparr>seqno = i, size_out = ab_discarded opts db ab i, ordinal = Suc (discarded out)\<rparr>
             (fastqout_discarded out)
      else fastqout_discarded out)"
  "discarded (write_amplicon opts db ab i out) =
     (if 0 <s ab_discarded opts db ab i then Suc (discarded out) else discarded out)"
  by (simp_all add: write_amplicon_def write_kept_def write_discarded_def Let_def)

lemma abundance_written_print_to:
  "abundance_written (print_to name rec file) =
     abundance_written file + (if name \<noteq> None then sint (size_out rec) else 0)"
  by (simp add: abundance_written_def print_to_def)

lemma kept_written:
  "abundance_written (fastaout (fold (write_amplicon opts db ab) xs out)) =
     abundance_written (fastaout out)
     + (if opt_fastaout opts \<noteq> None then (\<Sum>i\<leftarrow>xs. max 0 (sint (ab_sub ab i))) else 0)"
  "abundance_written (fastqout (fold (write_amplicon opts db ab) xs out)) =
     abundance_written (fastqout out)
     + (if opt_fastqout opts \<noteq> None then (\<Sum>i\<leftarrow>xs. max 0 (sint (ab_sub ab i))) else 0)"
  by (induction xs arbitrary: out)
    (simp_all add: write_amplicon_kept abundance_written_print_to word_sless_alt)

lemma discarded_written:
  "abundance_written (fastaout_discarded (fold (write_amplicon opts db ab) xs out)) =
     abundance_written (fastaout_discarded out)
     + (if opt_fastaout_discarded opts \<noteq> None
        then (\<Sum>i\<leftarrow>xs. max 0 (sint (ab_discarded opts db ab i))) else 0)"
  "abundance_written (fastqout_discarded (fold (write_amplicon opts db ab) xs out)) =
     abundance_written (fastqout_discarded out)
     + (if opt_fastqout_discarded opts \<noteq> None
        then (\<Sum>i\<leftarrow>xs. max 0 (sint (ab_discarded opts db ab i))) else 0)"
  by (induction xs arbitrary: out)
    (simp_all add: write_amplicon_discarded abundance_written_print_to word_sless_alt)

lemma nothing_discarded:
  assumes "\<forall>i\<in>set xs. ab_discarded opts db ab i = 0"
  shows "discarded (fold (write_amplicon opts db ab) xs out) = discarded out
         \<and> fastaout_discarded (fold (write_amplicon opts db ab) xs out) = fastaout_discarded out
         \<and> fastqout_discarded (fold (write_amplicon opts db ab) xs out) = fastqout_discarded out"
  using assms
  by (induction xs arbitrary: out) (simp_all add: write_amplicon_discarded)

lemma sint_ab_sub: "sint (ab_sub ab i) = sint (ab ! i)"
  unfolding ab_sub_def by (rule sint_up_scast) (simp add: is_up)

lemma sint_ab_discarded:
  assumes "0 \<le> sint (ab ! i)" "sint (ab ! i) \<le> int (weight opts db i)"
    and "weight opts db i < 2 ^ 63"
  shows "sint (ab_discarded opts db ab i) = int (weight opts db i) - sint (ab ! i)"
proof -
  have u: "uint (amplicon_mass opts db i) = int (weight opts db i)"
    by (simp only: weight_def uint_nat)
  have b: "int (weight opts db i) < 2 ^ 63"
    using assms(3) by simp
  have "sint (amplicon_mass opts db i) = signed_take_bit 63 (int (weight opts db i))"
    using sint_uint [of "amplicon_mass opts db i"] by (simp only: u) simp
  also have "\<dots> = int (weight opts db i)"
    using b by (intro signed_take_bit_int_eq_self) simp_all
  finally have w: "sint (amplicon_mass opts db i) = int (weight opts db i)" .
  have "- (2 ^ 63) \<le> int (weight opts db i) - sint (ab ! i)"
    and "int (weight opts db i) - sint (ab ! i) < 2 ^ 63"
    using assms by simp_all
  then have "signed_take_bit 63 (int (weight opts db i) - sint (ab ! i))
      = int (weight opts db i) - sint (ab ! i)"
    by (rule signed_take_bit_int_eq_self)
  then show ?thesis
    by (simp add: ab_discarded_def sint_word_ariths w sint_ab_sub)
qed

lemma sum_list_upt: "(\<Sum>i\<leftarrow>[0..<k]. f i) = (\<Sum>i<k. f i)"
  by (simp add: interv_sum_list_conv_sum_set_nat atLeast0LessThan)

text \<open>
  \<open>subsample\<close> itself does not reject a configuration without a destination: it reads
  the database and goes on.
\<close>

lemma subsample_without_destination:
  assumes "no_destination opts" and "subsample fopen_output rnd opts db g = Some run"
  shows "db_loaded run \<and> failure run \<noteq> Some ConfigurationError"
proof -
  from assms(1) have "open_outputs fopen_output opts = None"
    and "\<not> fastq_without_quality opts db"
    by (simp_all add: no_destination_def open_outputs_def cannot_open_def
        fastq_without_quality_def)
  with assms(2) show ?thesis
    by (auto simp: subsample_def Let_def stopped_def finished_def split: if_splits)
qed


section \<open>Runs with the scripted generator\<close>

lemma scripted_draws_below: "draws_below scripted"
  by (auto simp: draws_below_def scripted_def word_mod_less_divisor split: list.splits)

lemma weight_amplicons:
  "opt_sizein opts \<Longrightarrow> i < length ws \<Longrightarrow> weight opts (amplicons ws) i = unat (ws ! i)"
  by (simp add: weight_def amplicon_mass_def amplicons_def)

lemma weights_amplicons:
  "(\<forall>i<db_getsequencecount (amplicons ws). P (weight (fasta_options True n) (amplicons ws) i))
     \<longleftrightarrow> (\<forall>w\<in>set ws. P (unat w))"
  by (simp add: amplicons_def weight_def amplicon_mass_def fasta_options_def all_set_conv_all_nth)

lemma less_3_cases: "i < (3 :: nat) \<Longrightarrow> i = 0 \<or> i = 1 \<or> i = 2"
  by arith

lemma mass_total_3_2_5: "mass_total (fasta_options True n) (amplicons [3, 2, 5]) = 10"
  by (simp add: mass_total_def fasta_options_def amplicons_def upt_rec)

lemma population_3_2_5: "population (fastx_options True n) (amplicons [3, 2, 5]) = 10"
  by (simp add: population_def weight_def amplicon_mass_def amplicons_def fastx_options_def
      lessThan_nat_numeral lessThan_Suc)

lemma first_iteration_3_2_5:
  "after_iterations 1 scripted (fasta_options True 4) (amplicons [3, 2, 5]) 10
     (initial_selection (fasta_options True 4) (amplicons [3, 2, 5]) 4 [0, 9, 0, 5])
   = \<lparr>reads_left = 3, amplicon = 0, read_no = 1, acc_mass = 1, cur_mass = 3,
      abundance = [1, 0, 0], generator = [9, 0, 5], incremented = [0], looked_up = []\<rparr>"
  by code_simp

lemma mass_total_0_2_5: "mass_total (fasta_options True n) (amplicons [0, 2, 5]) = 7"
  by (simp add: mass_total_def fasta_options_def amplicons_def upt_rec)

lemma run_0_2_5:
  "selection_loop scripted (fasta_options True 3) (amplicons [0, 2, 5]) 7
     (initial_selection (fasta_options True 3) (amplicons [0, 2, 5]) 3 [6, 1, 4, 0, 0])
   = Some \<lparr>reads_left = 0, amplicon = 2, read_no = 5, acc_mass = 2, cur_mass = 5,
       abundance = [0, 1, 2], generator = [], incremented = [2, 2, 1], looked_up = [2, 1]\<rparr>"
  by code_simp

lemma mass_total_1: "mass_total (fasta_options True n) (amplicons [1]) = 1"
  by (simp add: mass_total_def fasta_options_def amplicons_def upt_rec)

lemma run_1:
  "selection_loop scripted (fasta_options True 1) (amplicons [1]) 1
     (initial_selection (fasta_options True 1) (amplicons [1]) 1 [])
   = Some \<lparr>reads_left = 0, amplicon = 1, read_no = 1, acc_mass = 0, cur_mass = 0,
       abundance = [1], generator = [], incremented = [0], looked_up = [1]\<rparr>"
  by code_simp

lemma mass_total_0_1: "mass_total (fasta_options True n) (amplicons [0, 1]) = 1"
  by (simp add: mass_total_def fasta_options_def amplicons_def upt_rec)

lemma run_0_1:
  "selection_loop scripted (fasta_options True 1) (amplicons [0, 1]) 1
           (initial_selection (fasta_options True 1) (amplicons [0, 1]) 1 [])
        = Some \<lparr>reads_left = 0, amplicon = 1, read_no = 1, acc_mass = 0, cur_mass = 1,
                 abundance = [1, 0], generator = [], incremented = [0], looked_up = [1]\<rparr>"
  by code_simp

lemma mass_total_1_0_2: "mass_total (fasta_options True n) (amplicons [1, 0, 2]) = 3"
  by (simp add: mass_total_def fasta_options_def amplicons_def upt_rec)

lemma subsample_1_0_2:
  "subsample (\<lambda>f. True) scripted (fasta_options True 3) (amplicons [1, 0, 2]) [] =
     Some \<lparr>failure = None, db_loaded = True, selected = [1, 1, 1], generator_after = [],
       written = \<lparr>samples = 3, discarded = 1,
          fastaout = [\<lparr>seqno = 0, size_out = 1, ordinal = 1\<rparr>,
                      \<lparr>seqno = 1, size_out = 1, ordinal = 2\<rparr>,
                      \<lparr>seqno = 2, size_out = 1, ordinal = 3\<rparr>],
          fastqout = [],
          fastaout_discarded = [\<lparr>seqno = 2, size_out = 1, ordinal = 1\<rparr>],
          fastqout_discarded = []\<rparr>\<rparr>"
  by code_simp

subsection \<open>One amplicon of abundance \<open>2^31\<close>, sampled whole\<close>

text \<open>
  The run is too long to evaluate. After \<open>j < 2^31\<close> iterations the loop has selected
  all \<open>j\<close> reads it has examined; the iteration after the last of these takes the count
  to \<open>2^31\<close>, which the \<open>int\<close> reads as \<open>- 2^31\<close>, and the output pass computes the
  discarded abundance \<open>2^31 - (- 2^31) = 2^32\<close>.
\<close>

lemma unat_of_nat_small:
  "j \<le> 2147483648 \<Longrightarrow> unat (of_nat j :: u64) = j"
  by (simp add: unat_of_nat)

lemma big_body:
  assumes "j < 2147483648"
  shows "loop_body scripted (fasta_options True 2147483648) (amplicons [2147483648]) 2147483648
           \<lparr>reads_left = 2147483648 - of_nat j, amplicon = 0, read_no = of_nat j,
            acc_mass = of_nat j, cur_mass = 2147483648, abundance = [of_nat j],
            generator = [], incremented = replicate j 0, looked_up = []\<rparr>
         = (if Suc j < 2147483648
            then \<lparr>reads_left = 2147483648 - of_nat (Suc j), amplicon = 0, read_no = of_nat (Suc j),
                  acc_mass = of_nat (Suc j), cur_mass = 2147483648, abundance = [of_nat (Suc j)],
                  generator = [], incremented = replicate (Suc j) 0, looked_up = []\<rparr>
            else \<lparr>reads_left = 2147483648 - of_nat (Suc j), amplicon = 1, read_no = of_nat (Suc j),
                  acc_mass = 0, cur_mass = 0, abundance = [of_nat (Suc j)],
                  generator = [], incremented = replicate (Suc j) 0, looked_up = [1]\<rparr>)"
proof -
  have pos: "(0 :: u64) < 2147483648 - of_nat j"
  proof -
    have "unat (of_nat j :: u64) = j" using assms by (simp add: unat_of_nat_small)
    then have "(of_nat j :: u64) < 2147483648" using assms by (simp add: word_less_nat_alt)
    then show ?thesis by (simp add: word_less_nat_alt unat_sub word_le_nat_alt)
  qed
  have cmp: "(2147483648 :: u64) \<le> of_nat j + 1 \<longleftrightarrow> \<not> Suc j < 2147483648"
  proof -
    have "unat (of_nat (Suc j) :: u64) = Suc j"
      by (rule unat_of_nat_small) (use assms in simp)
    then have "unat (of_nat j + 1 :: u64) = Suc j" by (simp add: add.commute)
    then show ?thesis by (simp add: word_le_nat_alt not_less)
  qed
  show ?thesis
    using pos cmp
    by (simp add: loop_body_def select_read_def next_amplicon_def Let_def scripted_def
        amplicon_mass_def fasta_options_def amplicons_def add.commute)
qed

lemma big_prefix:
  "j < 2147483648 \<Longrightarrow>
     after_iterations j scripted (fasta_options True 2147483648) (amplicons [2147483648])
       2147483648
       (initial_selection (fasta_options True 2147483648) (amplicons [2147483648]) 2147483648 [])
     = \<lparr>reads_left = 2147483648 - of_nat j, amplicon = 0, read_no = of_nat j,
        acc_mass = of_nat j, cur_mass = 2147483648, abundance = [of_nat j],
        generator = [], incremented = replicate j 0, looked_up = []\<rparr>"
proof (induction j)
  case 0
  show ?case
    by (simp add: initial_selection_def amplicon_mass_def fasta_options_def amplicons_def)
next
  case (Suc j)
  then have j: "j < 2147483648" and sj: "Suc j < 2147483648" by simp_all
  have "unat (of_nat j :: u64) = j" using j by (simp add: unat_of_nat_small)
  then have "(of_nat j :: u64) < 2147483648" using j by (simp add: word_less_nat_alt)
  then have pos: "(0 :: u64) < 2147483648 - of_nat j"
    by (simp add: word_less_nat_alt unat_sub word_le_nat_alt)
  show ?case
    using pos sj by (simp only: after_iterations_Suc Suc.IH [OF j] big_body [OF j]
        selection.simps if_True)
qed

lemma big_run:
  "selection_loop scripted (fasta_options True 2147483648) (amplicons [2147483648]) 2147483648
     (initial_selection (fasta_options True 2147483648) (amplicons [2147483648]) 2147483648 [])
   = Some \<lparr>reads_left = 0, amplicon = 1, read_no = 2147483648, acc_mass = 0, cur_mass = 0,
       abundance = [2147483648], generator = [],
       incremented = replicate (Suc 2147483647) 0, looked_up = [1]\<rparr>"
proof -
  let ?opts = "fasta_options True 2147483648" and ?db = "amplicons [2147483648]"
  let ?s0 = "initial_selection ?opts ?db 2147483648 []"
  have a: "after_iterations 2147483647 scripted ?opts ?db 2147483648 ?s0
     = \<lparr>reads_left = 2147483648 - of_nat 2147483647, amplicon = 0, read_no = of_nat 2147483647,
        acc_mass = of_nat 2147483647, cur_mass = 2147483648, abundance = [of_nat 2147483647],
        generator = [], incremented = replicate 2147483647 0, looked_up = []\<rparr>"
    by (rule big_prefix) simp
  have b: "loop_body scripted ?opts ?db 2147483648
     \<lparr>reads_left = 2147483648 - of_nat 2147483647, amplicon = 0, read_no = of_nat 2147483647,
        acc_mass = of_nat 2147483647, cur_mass = 2147483648, abundance = [of_nat 2147483647],
        generator = [], incremented = replicate 2147483647 0, looked_up = []\<rparr>
     = \<lparr>reads_left = 0, amplicon = 1, read_no = 2147483648, acc_mass = 0, cur_mass = 0,
       abundance = [2147483648], generator = [],
       incremented = replicate (Suc 2147483647) 0, looked_up = [1]\<rparr>"
    using big_body [of 2147483647] by simp
  have "after_iterations (Suc 2147483647) scripted ?opts ?db 2147483648 ?s0
     = \<lparr>reads_left = 0, amplicon = 1, read_no = 2147483648, acc_mass = 0, cur_mass = 0,
       abundance = [2147483648], generator = [],
       incremented = replicate (Suc 2147483647) 0, looked_up = [1]\<rparr>"
    by (simp only: after_iterations_Suc a b selection.simps) simp
  moreover from this
  have "reads_left (after_iterations (Suc 2147483647) scripted ?opts ?db 2147483648 ?s0) = 0"
    by (simp only: selection.simps)
  ultimately show ?thesis
    using selection_loop_after [of "Suc 2147483647" scripted ?opts ?db 2147483648 ?s0]
    by (simp only:)
qed

lemma mass_total_big:
  "mass_total (fasta_options True n) (amplicons [2147483648]) = 2147483648"
  by (simp add: mass_total_def fasta_options_def amplicons_def upt_rec)

lemma write_output_big:
  "write_output (fasta_options True 2147483648) (amplicons [2147483648]) [2147483648]
   = \<lparr>samples = 0, discarded = 1, fastaout = [], fastqout = [],
      fastaout_discarded = [\<lparr>seqno = 0, size_out = 4294967296, ordinal = 1\<rparr>],
      fastqout_discarded = []\<rparr>"
  by code_simp

lemma subsample_big:
  "subsample (\<lambda>f. True) scripted (fasta_options True 2147483648) (amplicons [2147483648]) []
   = Some \<lparr>failure = None, db_loaded = True, selected = [2147483648], generator_after = [],
       written = \<lparr>samples = 0, discarded = 1, fastaout = [], fastqout = [],
          fastaout_discarded = [\<lparr>seqno = 0, size_out = 4294967296, ordinal = 1\<rparr>],
          fastqout_discarded = []\<rparr>\<rparr>"
proof -
  have o: "open_outputs (\<lambda>f. True) (fasta_options True 2147483648) = None"
    by (simp add: open_outputs_def cannot_open_def fasta_options_def)
  have q: "\<not> fastq_without_quality (fasta_options True 2147483648) (amplicons [2147483648])"
    by (simp add: fastq_without_quality_def fasta_options_def)
  have n: "reads_to_sample (fasta_options True 2147483648) 2147483648 = 2147483648"
    by (simp add: reads_to_sample_def fasta_options_def)
  show ?thesis
    by (simp add: subsample_def o q n mass_total_big big_run finished_def write_output_big)
qed


section \<open>The selected counts\<close>

text \<open>
  Claim C1, as amended. For a population of \<open>k < 2^31\<close> amplicons whose weights are all
  between 1 and \<open>2^31 - 1\<close>, a generator that keeps to its bound and a sample size
  \<open>n \<le> M\<close>: the selection loop ends, \<open>M\<close> is the sum of the weights, and the vector
  \<open>abundance\<close> holds for every amplicon \<open>i\<close> a count \<open>s_i\<close> with \<open>0 \<le> s_i \<le> w_i\<close>, the
  counts adding up to \<open>n\<close>.
\<close>

theorem selected_counts:
  assumes "draws_below rnd"
    and "db_getsequencecount db < 2 ^ 31"
    and "\<forall>i<db_getsequencecount db. 1 \<le> weight opts db i \<and> weight opts db i \<le> 2147483647"
    and "n \<le> mass_total opts db"
  shows "\<exists>s. selection_loop rnd opts db (mass_total opts db) (initial_selection opts db n g) = Some s
           \<and> unat (mass_total opts db) = population opts db
           \<and> length (abundance s) = db_getsequencecount db
           \<and> (\<forall>i<db_getsequencecount db.
                 0 \<le> sint (abundance s ! i) \<and> sint (abundance s ! i) \<le> int (weight opts db i))
           \<and> sum_list (map sint (abundance s)) = uint n"
proof -
  let ?mt = "mass_total opts db" and ?k = "db_getsequencecount db"
  let ?s0 = "initial_selection opts db n g"
  from selection_loop_result [OF assms(1,4)] obtain j
    where run: "selection_loop rnd opts db ?mt ?s0 = Some (after_iterations j rnd opts db ?mt ?s0)"
      and stop: "reads_left (after_iterations j rnd opts db ?mt ?s0) = 0"
    by blast
  let ?s = "after_iterations j rnd opts db ?mt ?s0"
  have u: "units opts db i = weight opts db i" if "i < ?k" for i
    using assms(3) that by (simp add: units_def max_def)
  then have small: "\<forall>i<?k. units opts db i \<le> 2147483647"
    using assms(3) by simp
  have "tracked opts db n ?mt ?s"
    by (rule tracked_after [OF assms(1,4) mass_total_le_units])
  then have p: "positioned opts db ?s" and c: "counted opts db ?s" and t: "tallied n ?s"
    by (simp_all add: tracked_def)
  have st: "stored db ?s"
    by (rule stored_after [OF assms(1,4) mass_total_le_units small])
  then have len: "length (abundance ?s) = ?k" by (simp add: stored_def)
  have val: "sint (abundance ?s ! i) = int (selected_reads ?s i)" if "i < ?k" for i
    using st that by (simp add: stored_def)
  have bounds: "\<forall>i<?k. 0 \<le> sint (abundance ?s ! i) \<and> sint (abundance ?s ! i) \<le> int (weight opts db i)"
    using val selected_reads_le [OF p c] u by simp
  have "sum_list (map sint (abundance ?s)) = (\<Sum>i<?k. sint (abundance ?s ! i))"
    by (simp add: sum_list_nth len)
  also have "\<dots> = (\<Sum>i<?k. int (selected_reads ?s i))"
    by (intro sum.cong) (simp_all add: val)
  also have "\<dots> = int (length (incremented ?s))"
    using selected_reads_sum [OF p c] by (simp flip: of_nat_sum)
  also have "\<dots> = uint n"
    using t stop by (simp add: tallied_def)
  finally have total: "sum_list (map sint (abundance ?s)) = uint n" .
  have "population opts db < 2 ^ 64"
    using assms(2,3) by (intro population_small) simp_all
  then have "unat ?mt = population opts db" by (rule mass_total_population)
  with run len bounds total show ?thesis by blast
qed

text \<open>
  The theorem at the weights 3, 2, 5 with \<open>n = 4\<close> and a scripted generator.
\<close>

theorem selected_counts_witness:
  "draws_below scripted
   \<and> db_getsequencecount (amplicons [3, 2, 5]) < 2 ^ 31
   \<and> weight (fasta_options True 4) (amplicons [3, 2, 5]) 0 = 3
   \<and> weight (fasta_options True 4) (amplicons [3, 2, 5]) 1 = 2
   \<and> weight (fasta_options True 4) (amplicons [3, 2, 5]) 2 = 5
   \<and> 4 \<le> mass_total (fasta_options True 4) (amplicons [3, 2, 5])
   \<and> (\<exists>s. selection_loop scripted (fasta_options True 4) (amplicons [3, 2, 5])
              (mass_total (fasta_options True 4) (amplicons [3, 2, 5]))
              (initial_selection (fasta_options True 4) (amplicons [3, 2, 5]) 4 [0, 9, 0, 5]) = Some s
           \<and> unat (mass_total (fasta_options True 4) (amplicons [3, 2, 5]))
               = population (fasta_options True 4) (amplicons [3, 2, 5])
           \<and> length (abundance s) = db_getsequencecount (amplicons [3, 2, 5])
           \<and> (\<forall>i<db_getsequencecount (amplicons [3, 2, 5]).
                 0 \<le> sint (abundance s ! i)
                 \<and> sint (abundance s ! i) \<le> int (weight (fasta_options True 4) (amplicons [3, 2, 5]) i))
           \<and> sum_list (map sint (abundance s)) = uint (4 :: u64))"
proof -
  have h2: "db_getsequencecount (amplicons [3, 2, 5]) < 2 ^ 31"
    by (simp add: amplicons_def)
  have h3: "\<forall>i<db_getsequencecount (amplicons [3, 2, 5]).
         1 \<le> weight (fasta_options True 4) (amplicons [3, 2, 5]) i
         \<and> weight (fasta_options True 4) (amplicons [3, 2, 5]) i \<le> 2147483647"
    using weights_amplicons [of "[3, 2, 5]" "\<lambda>w. 1 \<le> w \<and> w \<le> 2147483647" 4] by simp
  have h4: "4 \<le> mass_total (fasta_options True 4) (amplicons [3, 2, 5])"
    by (simp add: mass_total_3_2_5)
  have w: "weight (fasta_options True 4) (amplicons [3, 2, 5]) 0 = 3"
    "weight (fasta_options True 4) (amplicons [3, 2, 5]) 1 = 2"
    "weight (fasta_options True 4) (amplicons [3, 2, 5]) 2 = 5"
    by (simp_all add: weight_def amplicon_mass_def fasta_options_def amplicons_def)
  from selected_counts [OF scripted_draws_below h2 h3 h4, of "[0, 9, 0, 5]"]
    scripted_draws_below h2 w h4
  show ?thesis by blast
qed

text \<open>
  Claim C1 as it was stated fails on both sides of that range. With the weights 0 and 1
  and \<open>n = 1 = M\<close> the only read is counted for amplicon 0, whose weight is 0: the loop
  examines a read of the current amplicon before it compares \<open>m\<close> with \<open>mass\<close>. With one
  amplicon of weight \<open>2^31\<close> and \<open>n = 2^31 = M\<close> the count passes the largest \<open>int\<close> and is
  negative.
\<close>

theorem selected_counts_counterexample:
  "draws_below scripted
   \<and> 1 \<le> mass_total (fasta_options True 1) (amplicons [0, 1])
   \<and> map_option abundance
        (selection_loop scripted (fasta_options True 1) (amplicons [0, 1])
           (mass_total (fasta_options True 1) (amplicons [0, 1]))
           (initial_selection (fasta_options True 1) (amplicons [0, 1]) 1 [])) = Some [1, 0]
   \<and> \<not> sint ([1, 0 :: i32] ! 0) \<le> int (weight (fasta_options True 1) (amplicons [0, 1]) 0)
   \<and> 2147483648 \<le> mass_total (fasta_options True 2147483648) (amplicons [2147483648])
   \<and> map_option abundance
        (selection_loop scripted (fasta_options True 2147483648) (amplicons [2147483648])
           (mass_total (fasta_options True 2147483648) (amplicons [2147483648]))
           (initial_selection (fasta_options True 2147483648) (amplicons [2147483648])
              2147483648 [])) = Some [2147483648]
   \<and> \<not> 0 \<le> sint ([2147483648 :: i32] ! 0)"
proof -
  have "weight (fasta_options True 1) (amplicons [0, 1]) 0 = 0"
    by (simp add: weight_amplicons fasta_options_def)
  then show ?thesis
    using scripted_draws_below
    by (simp add: mass_total_0_1 run_0_1 mass_total_big big_run)
qed


section \<open>The sequence numbers the loop uses\<close>

text \<open>
  Claim C2 fails on the code. With \<open>opt_sizein\<close>, one amplicon of abundance 1 and
  \<open>n = 1 = M\<close> (a run that satisfies \<open>n \<le> M\<close>, with the scripted generator, which
  keeps to its bound), the loop selects the only read, moves to the next amplicon and
  calls \<open>db_getabundance(1)\<close> at line 207, although the database has sequence number 0
  only. Lemma \<open>last_lookup_out_of_range\<close> shows the same for every population with weights
  from 1 to \<open>2^31 - 1\<close> that is sampled whole with \<open>opt_sizein\<close>; lemma
  \<open>increments_below_count\<close> shows that the increments stay in range.
\<close>

theorem lookup_past_last_amplicon:
  "opt_sizein (fasta_options True 1)
   \<and> db_getsequencecount (amplicons [1]) = 1
   \<and> weight (fasta_options True 1) (amplicons [1]) 0 = 1
   \<and> 1 \<le> mass_total (fasta_options True 1) (amplicons [1])
   \<and> map_option looked_up
        (selection_loop scripted (fasta_options True 1) (amplicons [1])
           (mass_total (fasta_options True 1) (amplicons [1]))
           (initial_selection (fasta_options True 1) (amplicons [1]) 1 [])) = Some [1]
   \<and> \<not> 1 < db_getsequencecount (amplicons [1])"
  by (simp add: mass_total_1 run_1)
    (simp add: fasta_options_def amplicons_def weight_def amplicon_mass_def)


section \<open>The bound of the draw\<close>

text \<open>
  Claim C3. For \<open>n \<le> M\<close> and a generator that keeps to its bound, after any number \<open>j\<close>
  of iterations of the selection loop \<open>r \<le> M\<close> and \<open>x \<le> M - r\<close> hold, so whenever the loop
  goes on to draw (\<open>x > 0\<close>) the bound \<open>M - r\<close> it passes to \<open>random_ulong\<close> is at least 1.
\<close>

theorem draw_bound:
  assumes "draws_below rnd" and "n \<le> mass_total opts db"
  shows "let s = after_iterations j rnd opts db (mass_total opts db)
                   (initial_selection opts db n g)
         in read_no s \<le> mass_total opts db
            \<and> reads_left s \<le> mass_total opts db - read_no s
            \<and> (0 < reads_left s \<longrightarrow> 1 \<le> mass_total opts db - read_no s)"
proof -
  let ?s = "after_iterations j rnd opts db (mass_total opts db) (initial_selection opts db n g)"
  have w: "within_population (mass_total opts db) ?s"
    by (rule within_after [OF assms(1) within_initial [OF assms(2)]])
  then have a: "read_no ?s \<le> mass_total opts db"
    and b: "reads_left ?s \<le> mass_total opts db - read_no ?s"
    by (simp_all add: within_population_def)
  have "1 \<le> mass_total opts db - read_no ?s" if "0 < reads_left ?s"
  proof -
    from that b have "0 < mass_total opts db - read_no ?s" by (rule less_le_trans)
    then have "0 < unat (mass_total opts db - read_no ?s)" by (simp add: word_less_nat_alt)
    then show ?thesis by (simp add: word_le_nat_alt)
  qed
  with a b show ?thesis by (simp add: Let_def)
qed

text \<open>
  The theorem after the first iteration of the run with the weights 3, 2, 5 and \<open>n = 4\<close>,
  where three reads are left to select.
\<close>

theorem draw_bound_witness:
  "draws_below scripted
   \<and> 4 \<le> mass_total (fasta_options True 4) (amplicons [3, 2, 5])
   \<and> 0 < reads_left (after_iterations 1 scripted (fasta_options True 4) (amplicons [3, 2, 5])
             (mass_total (fasta_options True 4) (amplicons [3, 2, 5]))
             (initial_selection (fasta_options True 4) (amplicons [3, 2, 5]) 4 [0, 9, 0, 5]))
   \<and> 1 \<le> mass_total (fasta_options True 4) (amplicons [3, 2, 5])
          - read_no (after_iterations 1 scripted (fasta_options True 4) (amplicons [3, 2, 5])
             (mass_total (fasta_options True 4) (amplicons [3, 2, 5]))
             (initial_selection (fasta_options True 4) (amplicons [3, 2, 5]) 4 [0, 9, 0, 5]))"
proof -
  have h: "4 \<le> mass_total (fasta_options True 4) (amplicons [3, 2, 5])"
    by (simp add: mass_total_3_2_5)
  have pos: "0 < reads_left (after_iterations 1 scripted (fasta_options True 4) (amplicons [3, 2, 5])
             (mass_total (fasta_options True 4) (amplicons [3, 2, 5]))
             (initial_selection (fasta_options True 4) (amplicons [3, 2, 5]) 4 [0, 9, 0, 5]))"
    by (simp only: mass_total_3_2_5 first_iteration_3_2_5) simp
  from draw_bound [OF scripted_draws_below h, of 1 "[0, 9, 0, 5]"] pos scripted_draws_below h
  show ?thesis by (simp add: Let_def)
qed


section \<open>Sampling the whole population\<close>

text \<open>
  Claim C4, as amended. Let the \<open>k < 2^31\<close> weights all be between 1 and \<open>2^31 - 1\<close>, the
  generator keep to its bound, the output files open and the FASTQ test pass, and let
  the sample size resolve to \<open>n = M\<close>. Then \<open>x = M - r\<close> holds after every iteration, so
  that every number drawn is below \<open>x\<close>, and the run ends without a \<open>fatal\<close> with
  \<open>s_i = w_i\<close> for every amplicon; the output pass counts no discarded amplicon and
  prints nothing to the discarded files.
\<close>

theorem whole_population:
  assumes "draws_below rnd"
    and "db_getsequencecount db < 2 ^ 31"
    and "\<forall>i<db_getsequencecount db. 1 \<le> weight opts db i \<and> weight opts db i \<le> 2147483647"
    and "open_outputs fopen_output opts = None"
    and "\<not> fastq_without_quality opts db"
    and "reads_to_sample opts (mass_total opts db) = mass_total opts db"
  shows "(\<forall>j. let s = after_iterations j rnd opts db (mass_total opts db)
                         (initial_selection opts db (mass_total opts db) g)
              in reads_left s = mass_total opts db - read_no s
                 \<and> (0 < reads_left s \<longrightarrow> drawn rnd (mass_total opts db) s < reads_left s))
         \<and> (\<exists>run. subsample fopen_output rnd opts db g = Some run
               \<and> failure run = None
               \<and> length (selected run) = db_getsequencecount db
               \<and> (\<forall>i<db_getsequencecount db. sint (selected run ! i) = int (weight opts db i))
               \<and> discarded (written run) = 0
               \<and> fastaout_discarded (written run) = []
               \<and> fastqout_discarded (written run) = [])"
proof -
  let ?mt = "mass_total opts db" and ?k = "db_getsequencecount db"
  let ?s0 = "initial_selection opts db ?mt g"
  have u: "units opts db i = weight opts db i" if "i < ?k" for i
    using assms(3) that by (simp add: units_def max_def)
  then have small: "\<forall>i<?k. units opts db i \<le> 2147483647"
    using assms(3) by simp
  have "population opts db < 2 ^ 64"
    using assms(2,3) by (intro population_small) simp_all
  then have mt: "unat ?mt = population opts db" by (rule mass_total_population)
  have throughout: "let s = after_iterations j rnd opts db ?mt ?s0
      in reads_left s = ?mt - read_no s \<and> (0 < reads_left s \<longrightarrow> drawn rnd ?mt s < reads_left s)"
    for j
    using exhaustive_after [OF assms(1), of j opts db ?mt g]
      exhaustive_body(1) [OF assms(1), of "after_iterations j rnd opts db ?mt ?s0" ?mt]
    by (simp add: Let_def selects_def)
  from selection_loop_tracked [OF assms(1) order_refl mass_total_le_units, of opts db g] small
  obtain s where run: "selection_loop rnd opts db ?mt ?s0 = Some s"
    and stop: "reads_left s = 0" and tr: "tracked opts db ?mt ?mt s" and st: "stored db s"
    by blast
  from tr have p: "positioned opts db s" and c: "counted opts db s" and t: "tallied ?mt s"
    by (simp_all add: tracked_def)
  have eq: "(\<Sum>i<?k. selected_reads s i) = (\<Sum>i<?k. weight opts db i)"
    using selected_reads_sum [OF p c] t stop mt by (simp add: tallied_def population_def)
  have le: "\<forall>i<?k. selected_reads s i \<le> weight opts db i"
    using selected_reads_le [OF p c] u by simp
  have all: "selected_reads s i = weight opts db i" if "i < ?k" for i
    by (rule sum_eq_pointwise [OF le eq that])
  from st have len: "length (abundance s) = ?k" by (simp add: stored_def)
  have val: "sint (abundance s ! i) = int (weight opts db i)" if "i < ?k" for i
    using st that all by (simp add: stored_def)
  have "ab_discarded opts db (abundance s) i = 0" if "i < ?k" for i
  proof -
    have "weight opts db i \<le> 2147483647" using assms(3) that by simp
    then have "weight opts db i < 2 ^ 63" by simp
    with val [OF that]
    have "sint (ab_discarded opts db (abundance s) i) = 0"
      by (simp add: sint_ab_discarded)
    then show ?thesis by (simp add: signed_eq_0_iff)
  qed
  then have "\<forall>i\<in>set [0..<?k]. ab_discarded opts db (abundance s) i = 0" by simp
  from nothing_discarded [OF this, of no_output]
  have none: "discarded (write_output opts db (abundance s)) = 0"
    "fastaout_discarded (write_output opts db (abundance s)) = []"
    "fastqout_discarded (write_output opts db (abundance s)) = []"
    by (simp_all add: write_output_def no_output_def)
  have "subsample fopen_output rnd opts db g = Some (finished opts db s)"
    using assms(4,5,6) run by (simp add: subsample_def Let_def)
  moreover have "failure (finished opts db s) = None"
    "selected (finished opts db s) = abundance s"
    "written (finished opts db s) = write_output opts db (abundance s)"
    by (simp_all add: finished_def)
  ultimately have "\<exists>run. subsample fopen_output rnd opts db g = Some run
               \<and> failure run = None
               \<and> length (selected run) = ?k
               \<and> (\<forall>i<?k. sint (selected run ! i) = int (weight opts db i))
               \<and> discarded (written run) = 0
               \<and> fastaout_discarded (written run) = []
               \<and> fastqout_discarded (written run) = []"
    using len val none by simp
  with throughout show ?thesis by blast
qed

text \<open>
  The theorem at the weights 3, 2, 5 with \<open>n = 10\<close>.
\<close>

theorem whole_population_witness:
  "draws_below scripted
   \<and> db_getsequencecount (amplicons [3, 2, 5]) < 2 ^ 31
   \<and> weight (fasta_options True 10) (amplicons [3, 2, 5]) 0 = 3
   \<and> weight (fasta_options True 10) (amplicons [3, 2, 5]) 1 = 2
   \<and> weight (fasta_options True 10) (amplicons [3, 2, 5]) 2 = 5
   \<and> open_outputs (\<lambda>f. True) (fasta_options True 10) = None
   \<and> \<not> fastq_without_quality (fasta_options True 10) (amplicons [3, 2, 5])
   \<and> reads_to_sample (fasta_options True 10) (mass_total (fasta_options True 10) (amplicons [3, 2, 5]))
       = mass_total (fasta_options True 10) (amplicons [3, 2, 5])
   \<and> (\<exists>run. subsample (\<lambda>f. True) scripted (fasta_options True 10) (amplicons [3, 2, 5]) [8, 3, 5] = Some run
          \<and> failure run = None
          \<and> sint (selected run ! 0) = 3 \<and> sint (selected run ! 1) = 2 \<and> sint (selected run ! 2) = 5
          \<and> discarded (written run) = 0
          \<and> fastaout_discarded (written run) = []
          \<and> fastqout_discarded (written run) = [])"
proof -
  let ?opts = "fasta_options True 10" and ?db = "amplicons [3, 2, 5]"
  have k: "db_getsequencecount ?db = 3" by (simp add: amplicons_def)
  have h2: "db_getsequencecount ?db < 2 ^ 31" by (simp add: k)
  have sz: "opt_sizein ?opts" by (simp add: fasta_options_def)
  have w: "weight ?opts ?db 0 = 3" "weight ?opts ?db 1 = 2" "weight ?opts ?db 2 = 5"
    using sz by (simp_all add: weight_amplicons)
  have h3: "\<forall>i<db_getsequencecount ?db. 1 \<le> weight ?opts ?db i \<and> weight ?opts ?db i \<le> 2147483647"
    unfolding k using w by (auto dest!: less_3_cases)
  have h4: "open_outputs (\<lambda>f. True) ?opts = None"
    by (simp add: open_outputs_def cannot_open_def fasta_options_def)
  have h5: "\<not> fastq_without_quality ?opts ?db"
    by (simp add: fastq_without_quality_def fasta_options_def)
  have h6: "reads_to_sample ?opts (mass_total ?opts ?db) = mass_total ?opts ?db"
    unfolding mass_total_3_2_5 by (simp add: reads_to_sample_def fasta_options_def)
  from whole_population [OF scripted_draws_below h2 h3 h4 h5 h6, of "[8, 3, 5]"]
  obtain run where run: "subsample (\<lambda>f. True) scripted ?opts ?db [8, 3, 5] = Some run"
    "failure run = None"
    "\<forall>i<db_getsequencecount ?db. sint (selected run ! i) = int (weight ?opts ?db i)"
    "discarded (written run) = 0" "fastaout_discarded (written run) = []"
    "fastqout_discarded (written run) = []"
    by blast
  from run(3) k w have "sint (selected run ! 0) = 3" "sint (selected run ! 1) = 2"
    "sint (selected run ! 2) = 5"
    by simp_all
  with run(1,2,4,5,6) scripted_draws_below h2 w h4 h5 h6 show ?thesis by blast
qed

text \<open>
  Claim C4 as it was stated fails on both sides of that range. With the weights 1, 0, 2
  and \<open>n = 3 = M\<close> the loop counts one read for each amplicon: amplicon 1, of weight 0,
  has the count 1, amplicon 2 has 1 of its 2 reads selected, and the output pass prints
  it to the discarded file with the abundance 1. With one amplicon of weight \<open>2^31\<close> and
  \<open>n = 2^31 = M\<close> the count is \<open>- 2^31\<close>, and the output pass prints the amplicon to the
  discarded file with the abundance \<open>2^32\<close>.
\<close>

theorem whole_population_counterexample:
  "draws_below scripted
   \<and> reads_to_sample (fasta_options True 3) (mass_total (fasta_options True 3) (amplicons [1, 0, 2]))
       = mass_total (fasta_options True 3) (amplicons [1, 0, 2])
   \<and> map_option selected
        (subsample (\<lambda>f. True) scripted (fasta_options True 3) (amplicons [1, 0, 2]) []) = Some [1, 1, 1]
   \<and> sint ([1, 1, 1 :: i32] ! 1) \<noteq> int (weight (fasta_options True 3) (amplicons [1, 0, 2]) 1)
   \<and> map_option (\<lambda>run. fastaout_discarded (written run))
        (subsample (\<lambda>f. True) scripted (fasta_options True 3) (amplicons [1, 0, 2]) [])
       = Some [\<lparr>seqno = 2, size_out = 1, ordinal = 1\<rparr>]
   \<and> reads_to_sample (fasta_options True 2147483648)
         (mass_total (fasta_options True 2147483648) (amplicons [2147483648]))
       = mass_total (fasta_options True 2147483648) (amplicons [2147483648])
   \<and> map_option selected
        (subsample (\<lambda>f. True) scripted (fasta_options True 2147483648) (amplicons [2147483648]) [])
       = Some [2147483648]
   \<and> sint ([2147483648 :: i32] ! 0)
       \<noteq> int (weight (fasta_options True 2147483648) (amplicons [2147483648]) 0)
   \<and> map_option (\<lambda>run. fastaout_discarded (written run))
        (subsample (\<lambda>f. True) scripted (fasta_options True 2147483648) (amplicons [2147483648]) [])
       = Some [\<lparr>seqno = 0, size_out = 4294967296, ordinal = 1\<rparr>]"
proof -
  have "reads_to_sample (fasta_options True 3) (mass_total (fasta_options True 3) (amplicons [1, 0, 2]))
       = mass_total (fasta_options True 3) (amplicons [1, 0, 2])"
    unfolding mass_total_1_0_2 by (simp add: reads_to_sample_def fasta_options_def)
  moreover have "weight (fasta_options True 3) (amplicons [1, 0, 2]) 1 = 0"
    by (simp add: weight_amplicons fasta_options_def)
  moreover have "reads_to_sample (fasta_options True 2147483648)
         (mass_total (fasta_options True 2147483648) (amplicons [2147483648]))
       = mass_total (fasta_options True 2147483648) (amplicons [2147483648])"
    unfolding mass_total_big by (simp add: reads_to_sample_def fasta_options_def)
  moreover have "weight (fasta_options True 2147483648) (amplicons [2147483648]) 0 = 2147483648"
    by (simp add: weight_amplicons fasta_options_def)
  ultimately show ?thesis
    using scripted_draws_below by (simp add: subsample_1_0_2 subsample_big)
qed


section \<open>A sample larger than the population\<close>

text \<open>
  Claim C5. When the sample size \<open>n\<close> that \<open>subsample\<close> resolves is larger than
  \<open>mass_total\<close>, the run ends in a \<open>fatal\<close>; where the output files could be opened and
  the FASTQ test passed, it is the \<open>fatal\<close> of line 177, reached with the vector
  \<open>abundance\<close> all zero. In every case no count differs from zero, the generator has not
  been asked for a number (the selection loop has not run), and nothing is printed.
\<close>

theorem too_many_reads:
  assumes "mass_total opts db < reads_to_sample opts (mass_total opts db)"
  shows "\<exists>run. subsample fopen_output rnd opts db g = Some run
           \<and> failure run \<noteq> None
           \<and> (open_outputs fopen_output opts = None \<and> \<not> fastq_without_quality opts db \<longrightarrow>
                 failure run
                   = Some (Fatal ''Cannot subsample more reads than in the original sample'')
                 \<and> selected run = replicate (db_getsequencecount db) 0)
           \<and> set (selected run) \<subseteq> {0}
           \<and> generator_after run = g
           \<and> written run = no_output"
  using assms
  by (cases "open_outputs fopen_output opts")
    (auto simp: subsample_def stopped_def Let_def)

text \<open>
  The theorem at the weights 3, 2, 5 with a request of 11 reads.
\<close>

theorem too_many_reads_witness:
  "mass_total (fasta_options True 11) (amplicons [3, 2, 5])
     < reads_to_sample (fasta_options True 11) (mass_total (fasta_options True 11) (amplicons [3, 2, 5]))
   \<and> open_outputs (\<lambda>f. True) (fasta_options True 11) = None
   \<and> \<not> fastq_without_quality (fasta_options True 11) (amplicons [3, 2, 5])
   \<and> (\<exists>run. subsample (\<lambda>f. True) scripted (fasta_options True 11) (amplicons [3, 2, 5]) [7, 7]
               = Some run
           \<and> failure run
               = Some (Fatal ''Cannot subsample more reads than in the original sample'')
           \<and> selected run = [0, 0, 0]
           \<and> generator_after run = [7, 7]
           \<and> written run = no_output)"
proof -
  have h: "mass_total (fasta_options True 11) (amplicons [3, 2, 5])
     < reads_to_sample (fasta_options True 11) (mass_total (fasta_options True 11) (amplicons [3, 2, 5]))"
    unfolding mass_total_3_2_5 by (simp add: reads_to_sample_def fasta_options_def)
  have o: "open_outputs (\<lambda>f. True) (fasta_options True 11) = None"
    by (simp add: open_outputs_def cannot_open_def fasta_options_def)
  have q: "\<not> fastq_without_quality (fasta_options True 11) (amplicons [3, 2, 5])"
    by (simp add: fastq_without_quality_def fasta_options_def)
  have k: "replicate (db_getsequencecount (amplicons [3, 2, 5])) (0 :: i32) = [0, 0, 0]"
    by (simp add: amplicons_def numeral_3_eq_3)
  from too_many_reads [OF h, of "\<lambda>f. True" scripted "[7, 7]"] o q k h
  show ?thesis by auto
qed


section \<open>No destination\<close>

text \<open>
  Claim C7, against the validation modelled from the spec. When none of the four output
  files is asked for, the command ends with a configuration error: the database has not
  been read, no vector of counts exists, the generator has not been asked for a number
  and nothing is printed.
\<close>

theorem no_destination_rejected:
  assumes "no_destination opts"
  shows "\<exists>run. fastx_subsample fopen_output rnd opts db g = Some run
           \<and> failure run = Some ConfigurationError
           \<and> \<not> db_loaded run
           \<and> selected run = []
           \<and> generator_after run = g
           \<and> written run = no_output"
  using assms by (simp add: fastx_subsample_def stopped_def)

text \<open>
  The theorem at a configuration without any output file.
\<close>

theorem no_destination_rejected_witness:
  "no_destination (no_options True 4)
   \<and> (\<exists>run. fastx_subsample (\<lambda>f. True) scripted (no_options True 4) (amplicons [3, 2, 5]) [0, 9, 0, 5]
              = Some run
           \<and> failure run = Some ConfigurationError
           \<and> \<not> db_loaded run
           \<and> selected run = []
           \<and> generator_after run = [0, 9, 0, 5]
           \<and> written run = no_output)"
proof -
  have h: "no_destination (no_options True 4)"
    by (simp add: no_destination_def no_options_def)
  from no_destination_rejected [OF h, of "\<lambda>f. True" scripted "amplicons [3, 2, 5]" "[0, 9, 0, 5]"] h
  show ?thesis by blast
qed


section \<open>Kept and discarded abundances\<close>

text \<open>
  Claim C8. Let \<open>abundance\<close> hold for each of the \<open>k\<close> amplicons a count \<open>s_i\<close> with
  \<open>0 \<le> s_i \<le> w_i\<close>, the counts adding up to \<open>n\<close>, for weights that fit \<open>int64_t\<close>, the type
  in which the output pass computes. Then the pass computes \<open>ab_sub = s_i\<close> and
  \<open>ab_discarded = w_i - s_i\<close> for every amplicon, the abundances of the records printed to
  each kept file that is asked for add up to \<open>n\<close>, and those printed to each discarded
  file that is asked for add up to \<open>M - n\<close>, where \<open>M\<close> is the sum of the weights.
\<close>

theorem partition_sums:
  assumes "length ab = db_getsequencecount db"
    and "\<forall>i<db_getsequencecount db. 0 \<le> sint (ab ! i) \<and> sint (ab ! i) \<le> int (weight opts db i)"
    and "\<forall>i<db_getsequencecount db. weight opts db i < 2 ^ 63"
    and "sum_list (map sint ab) = n"
  shows "(\<forall>i<db_getsequencecount db.
            sint (ab_sub ab i) = sint (ab ! i)
            \<and> sint (ab_discarded opts db ab i) = int (weight opts db i) - sint (ab ! i))
         \<and> (opt_fastaout opts \<noteq> None \<longrightarrow>
               abundance_written (fastaout (write_output opts db ab)) = n)
         \<and> (opt_fastqout opts \<noteq> None \<longrightarrow>
               abundance_written (fastqout (write_output opts db ab)) = n)
         \<and> (opt_fastaout_discarded opts \<noteq> None \<longrightarrow>
               abundance_written (fastaout_discarded (write_output opts db ab))
                 = int (population opts db) - n)
         \<and> (opt_fastqout_discarded opts \<noteq> None \<longrightarrow>
               abundance_written (fastqout_discarded (write_output opts db ab))
                 = int (population opts db) - n)"
proof -
  let ?k = "db_getsequencecount db"
  have d: "sint (ab_discarded opts db ab i) = int (weight opts db i) - sint (ab ! i)"
    if "i < ?k" for i
    using assms(2,3) that by (intro sint_ab_discarded) simp_all
  have n: "(\<Sum>i<?k. sint (ab ! i)) = n"
    using assms(1,4) by (simp add: sum_list_nth)
  have "(\<Sum>i\<leftarrow>[0..<?k]. max 0 (sint (ab_sub ab i))) = (\<Sum>i<?k. max 0 (sint (ab_sub ab i)))"
    by (rule sum_list_upt)
  also have "\<dots> = (\<Sum>i<?k. sint (ab ! i))"
    using assms(2) by (intro sum.cong) (simp_all add: sint_ab_sub)
  finally have kept: "(\<Sum>i\<leftarrow>[0..<?k]. max 0 (sint (ab_sub ab i))) = n"
    using n by simp
  have "(\<Sum>i\<leftarrow>[0..<?k]. max 0 (sint (ab_discarded opts db ab i)))
      = (\<Sum>i<?k. max 0 (sint (ab_discarded opts db ab i)))"
    by (rule sum_list_upt)
  also have "\<dots> = (\<Sum>i<?k. int (weight opts db i) - sint (ab ! i))"
    using assms(2) by (intro sum.cong) (simp_all add: d)
  also have "\<dots> = int (population opts db) - n"
    using n by (simp add: sum_subtractf population_def)
  finally have disc: "(\<Sum>i\<leftarrow>[0..<?k]. max 0 (sint (ab_discarded opts db ab i)))
      = int (population opts db) - n" .
  have zero: "abundance_written [] = 0" by (simp add: abundance_written_def)
  show ?thesis
    using d kept disc
    by (simp add: write_output_def kept_written discarded_written no_output_def zero sint_ab_sub)
qed

text \<open>
  The theorem at the weights 3, 2, 5 and the counts 3, 0, 1, with all four files.
\<close>

theorem partition_sums_witness:
  "length [3, 0, 1 :: i32] = db_getsequencecount (amplicons [3, 2, 5])
   \<and> sum_list (map sint [3, 0, 1 :: i32]) = 4
   \<and> population (fastx_options True 4) (amplicons [3, 2, 5]) = 10
   \<and> abundance_written (fastaout (write_output (fastx_options True 4) (amplicons [3, 2, 5]) [3, 0, 1])) = 4
   \<and> abundance_written (fastqout (write_output (fastx_options True 4) (amplicons [3, 2, 5]) [3, 0, 1])) = 4
   \<and> abundance_written
        (fastaout_discarded (write_output (fastx_options True 4) (amplicons [3, 2, 5]) [3, 0, 1])) = 6
   \<and> abundance_written
        (fastqout_discarded (write_output (fastx_options True 4) (amplicons [3, 2, 5]) [3, 0, 1])) = 6"
proof -
  let ?opts = "fastx_options True 4" and ?db = "amplicons [3, 2, 5]"
  have k: "db_getsequencecount ?db = 3" by (simp add: amplicons_def)
  have sz: "opt_sizein ?opts" by (simp add: fastx_options_def)
  have w: "weight ?opts ?db 0 = 3" "weight ?opts ?db 1 = 2" "weight ?opts ?db 2 = 5"
    using sz by (simp_all add: weight_amplicons)
  have h1: "length [3, 0, 1 :: i32] = db_getsequencecount ?db" by (simp add: k)
  have h2: "\<forall>i<db_getsequencecount ?db.
      0 \<le> sint ([3, 0, 1 :: i32] ! i) \<and> sint ([3, 0, 1 :: i32] ! i) \<le> int (weight ?opts ?db i)"
    unfolding k using w by (auto dest!: less_3_cases)
  have h3: "\<forall>i<db_getsequencecount ?db. weight ?opts ?db i < 2 ^ 63"
    unfolding k using w by (auto dest!: less_3_cases)
  have h4: "sum_list (map sint [3, 0, 1 :: i32]) = 4" by simp
  have o: "opt_fastaout ?opts \<noteq> None" "opt_fastqout ?opts \<noteq> None"
    "opt_fastaout_discarded ?opts \<noteq> None" "opt_fastqout_discarded ?opts \<noteq> None"
    by (simp_all add: fastx_options_def)
  from partition_sums [OF h1 h2 h3 h4] o h1 h4 population_3_2_5 [of 4]
  show ?thesis by simp
qed


section \<open>Termination of the selection loop\<close>

text \<open>
  Claim C9. For \<open>n \<le> M\<close> and a generator that keeps to its bound the selection loop
  ends: there is a number \<open>j\<close> of iterations after which \<open>x = 0\<close>, the loop returns the
  state reached then, \<open>x > 0\<close> before each of these iterations (so the loop stops at the
  first state with \<open>x = 0\<close>), \<open>r = j\<close> reads have been examined and no others, \<open>j \<le> M\<close>,
  and \<open>x\<close> never grows from one iteration to the next.
\<close>

theorem selection_loop_terminates:
  assumes "draws_below rnd" and "n \<le> mass_total opts db"
  shows "\<exists>j s. selection_loop rnd opts db (mass_total opts db) (initial_selection opts db n g) = Some s
           \<and> s = after_iterations j rnd opts db (mass_total opts db) (initial_selection opts db n g)
           \<and> reads_left s = 0
           \<and> unat (read_no s) = j
           \<and> j \<le> unat (mass_total opts db)
           \<and> (\<forall>i<j. 0 < reads_left (after_iterations i rnd opts db (mass_total opts db)
                                       (initial_selection opts db n g)))
           \<and> (\<forall>i. reads_left (after_iterations (Suc i) rnd opts db (mass_total opts db)
                                  (initial_selection opts db n g))
                    \<le> reads_left (after_iterations i rnd opts db (mass_total opts db)
                                  (initial_selection opts db n g)))"
proof -
  let ?mt = "mass_total opts db" and ?s0 = "initial_selection opts db n g"
  have r0: "unat (read_no ?s0) = 0" by (simp add: initial_selection_def)
  from loop_ends [OF assms(1) within_initial [OF assms(2)], of opts db g]
  obtain j where j: "unat (read_no ?s0) + j \<le> unat ?mt"
    "reads_left (after_iterations j rnd opts db ?mt ?s0) = 0"
    "\<forall>i<j. 0 < reads_left (after_iterations i rnd opts db ?mt ?s0)"
    "unat (read_no (after_iterations j rnd opts db ?mt ?s0)) = unat (read_no ?s0) + j"
    by blast
  from selection_loop_after [OF j(2)] j r0 reads_left_after_mono [of _ rnd opts db ?mt ?s0]
  show ?thesis by (intro exI [of _ j]) simp
qed

text \<open>
  The theorem at the weights 3, 2, 5 with \<open>n = 4\<close>, where the loop does iterate.
\<close>

theorem selection_loop_terminates_witness:
  "draws_below scripted
   \<and> 4 \<le> mass_total (fasta_options True 4) (amplicons [3, 2, 5])
   \<and> (\<exists>j s. selection_loop scripted (fasta_options True 4) (amplicons [3, 2, 5])
               (mass_total (fasta_options True 4) (amplicons [3, 2, 5]))
               (initial_selection (fasta_options True 4) (amplicons [3, 2, 5]) 4 [0, 9, 0, 5]) = Some s
           \<and> s = after_iterations j scripted (fasta_options True 4) (amplicons [3, 2, 5])
                   (mass_total (fasta_options True 4) (amplicons [3, 2, 5]))
                   (initial_selection (fasta_options True 4) (amplicons [3, 2, 5]) 4 [0, 9, 0, 5])
           \<and> reads_left s = 0
           \<and> unat (read_no s) = j
           \<and> j \<le> unat (mass_total (fasta_options True 4) (amplicons [3, 2, 5]))
           \<and> 0 < j)"
proof -
  have h: "4 \<le> mass_total (fasta_options True 4) (amplicons [3, 2, 5])"
    by (simp add: mass_total_3_2_5)
  from selection_loop_terminates [OF scripted_draws_below h, of "[0, 9, 0, 5]"]
  obtain j s where js:
    "selection_loop scripted (fasta_options True 4) (amplicons [3, 2, 5])
               (mass_total (fasta_options True 4) (amplicons [3, 2, 5]))
               (initial_selection (fasta_options True 4) (amplicons [3, 2, 5]) 4 [0, 9, 0, 5]) = Some s"
    "s = after_iterations j scripted (fasta_options True 4) (amplicons [3, 2, 5])
                   (mass_total (fasta_options True 4) (amplicons [3, 2, 5]))
                   (initial_selection (fasta_options True 4) (amplicons [3, 2, 5]) 4 [0, 9, 0, 5])"
    "reads_left s = 0" "unat (read_no s) = j"
    "j \<le> unat (mass_total (fasta_options True 4) (amplicons [3, 2, 5]))"
    by blast
  have "0 < j"
  proof (rule ccontr)
    assume "\<not> 0 < j"
    with js(2,3) show False by (simp add: initial_selection_def)
  qed
  with js scripted_draws_below h show ?thesis by blast
qed


section \<open>The counts in the vector of ints\<close>

text \<open>
  Claim C10. The counts are kept in the \<open>int\<close>s of \<open>abundance\<close>, the weights and the total
  mass in \<open>uint64_t\<close>. For \<open>k < 2^31\<close> amplicons (their number is an \<open>int\<close>) whose weights
  are at most \<open>2^31 - 1\<close>, a generator that keeps to its bound and \<open>n \<le> M\<close>: the total
  mass is the sum of the weights, and after every iteration, and when the loop has ended,
  the \<open>int\<close> stored for each amplicon is the number of its reads that the loop has
  selected. These numbers add up to \<open>n\<close> at the end.
\<close>

theorem stored_counts_exact:
  assumes "draws_below rnd"
    and "db_getsequencecount db < 2 ^ 31"
    and "\<forall>i<db_getsequencecount db. weight opts db i \<le> 2147483647"
    and "n \<le> mass_total opts db"
  shows "unat (mass_total opts db) = population opts db
         \<and> (\<forall>j. stored db (after_iterations j rnd opts db (mass_total opts db)
                             (initial_selection opts db n g)))
         \<and> (\<exists>s. selection_loop rnd opts db (mass_total opts db) (initial_selection opts db n g)
                   = Some s
                \<and> length (abundance s) = db_getsequencecount db
                \<and> (\<forall>i<db_getsequencecount db. sint (abundance s ! i) = int (selected_reads s i))
                \<and> (\<Sum>i<db_getsequencecount db. selected_reads s i) = unat n)"
proof -
  let ?mt = "mass_total opts db" and ?k = "db_getsequencecount db"
  let ?s0 = "initial_selection opts db n g"
  have small: "\<forall>i<?k. units opts db i \<le> 2147483647"
    using assms(3) by (simp add: units_def)
  have st: "stored db (after_iterations j rnd opts db ?mt ?s0)" for j
    by (rule stored_after [OF assms(1,4) mass_total_le_units small])
  from selection_loop_result [OF assms(1,4)] obtain j
    where run: "selection_loop rnd opts db ?mt ?s0 = Some (after_iterations j rnd opts db ?mt ?s0)"
      and stop: "reads_left (after_iterations j rnd opts db ?mt ?s0) = 0"
    by blast
  let ?s = "after_iterations j rnd opts db ?mt ?s0"
  have "tracked opts db n ?mt ?s"
    by (rule tracked_after [OF assms(1,4) mass_total_le_units])
  then have p: "positioned opts db ?s" and c: "counted opts db ?s" and t: "tallied n ?s"
    by (simp_all add: tracked_def)
  have total: "(\<Sum>i<?k. selected_reads ?s i) = unat n"
    using selected_reads_sum [OF p c] t stop by (simp add: tallied_def)
  have "population opts db < 2 ^ 64"
    using assms(2,3) by (intro population_small) simp_all
  then have "unat ?mt = population opts db" by (rule mass_total_population)
  moreover have "length (abundance ?s) = ?k"
    and "\<forall>i<?k. sint (abundance ?s ! i) = int (selected_reads ?s i)"
    using st [of j] by (simp_all add: stored_def)
  ultimately show ?thesis using st run total by blast
qed

text \<open>
  The theorem at the weights 0, 2, 5 with \<open>n = 3\<close>.
\<close>

theorem stored_counts_exact_witness:
  "draws_below scripted
   \<and> db_getsequencecount (amplicons [0, 2, 5]) < 2 ^ 31
   \<and> weight (fasta_options True 3) (amplicons [0, 2, 5]) 0 = 0
   \<and> weight (fasta_options True 3) (amplicons [0, 2, 5]) 1 = 2
   \<and> weight (fasta_options True 3) (amplicons [0, 2, 5]) 2 = 5
   \<and> 3 \<le> mass_total (fasta_options True 3) (amplicons [0, 2, 5])
   \<and> unat (mass_total (fasta_options True 3) (amplicons [0, 2, 5]))
       = population (fasta_options True 3) (amplicons [0, 2, 5])
   \<and> (\<exists>s. selection_loop scripted (fasta_options True 3) (amplicons [0, 2, 5])
              (mass_total (fasta_options True 3) (amplicons [0, 2, 5]))
              (initial_selection (fasta_options True 3) (amplicons [0, 2, 5]) 3 [6, 1, 4, 0, 0])
            = Some s
          \<and> abundance s = [0, 1, 2]
          \<and> sint (abundance s ! 0) = int (selected_reads s 0)
          \<and> sint (abundance s ! 1) = int (selected_reads s 1)
          \<and> sint (abundance s ! 2) = int (selected_reads s 2)
          \<and> (\<Sum>i<db_getsequencecount (amplicons [0, 2, 5]). selected_reads s i) = unat (3 :: u64))"
proof -
  have h2: "db_getsequencecount (amplicons [0, 2, 5]) < 2 ^ 31"
    by (simp add: amplicons_def)
  have k: "db_getsequencecount (amplicons [0, 2, 5]) = 3"
    by (simp add: amplicons_def)
  have h3: "\<forall>i<db_getsequencecount (amplicons [0, 2, 5]).
         weight (fasta_options True 3) (amplicons [0, 2, 5]) i \<le> 2147483647"
    using weights_amplicons [of "[0, 2, 5]" "\<lambda>w. w \<le> 2147483647" 3] by simp
  have h4: "3 \<le> mass_total (fasta_options True 3) (amplicons [0, 2, 5])"
    by (simp add: mass_total_0_2_5)
  have w: "weight (fasta_options True 3) (amplicons [0, 2, 5]) 0 = 0"
    "weight (fasta_options True 3) (amplicons [0, 2, 5]) 1 = 2"
    "weight (fasta_options True 3) (amplicons [0, 2, 5]) 2 = 5"
    by (simp_all add: weight_def amplicon_mass_def fasta_options_def amplicons_def)
  from stored_counts_exact [OF scripted_draws_below h2 h3 h4, of "[6, 1, 4, 0, 0]"]
  obtain s where s:
    "unat (mass_total (fasta_options True 3) (amplicons [0, 2, 5]))
       = population (fasta_options True 3) (amplicons [0, 2, 5])"
    "selection_loop scripted (fasta_options True 3) (amplicons [0, 2, 5])
              (mass_total (fasta_options True 3) (amplicons [0, 2, 5]))
              (initial_selection (fasta_options True 3) (amplicons [0, 2, 5]) 3 [6, 1, 4, 0, 0])
            = Some s"
    "\<forall>i<db_getsequencecount (amplicons [0, 2, 5]). sint (abundance s ! i) = int (selected_reads s i)"
    "(\<Sum>i<db_getsequencecount (amplicons [0, 2, 5]). selected_reads s i) = unat (3 :: u64)"
    by blast
  from s(2) have "abundance s = [0, 1, 2]"
    by (auto simp add: mass_total_0_2_5 run_0_2_5)
  moreover from s(3) k have "sint (abundance s ! 0) = int (selected_reads s 0)"
    "sint (abundance s ! 1) = int (selected_reads s 1)"
    "sint (abundance s ! 2) = int (selected_reads s 2)"
    by simp_all
  ultimately show ?thesis
    using scripted_draws_below h2 w h4 s(1,2,4) by blast
qed

end
